theory Spec2Isabelle
  imports Main "HOL-Library.AList"
begin

section \<open>Values, records and errors\<close>

text \<open>
  A record is a JavaScript object holding JSON-compatible data. Objects are association
  lists in insertion order with pairwise different keys; reading a key that is not there
  gives \<open>None\<close>, JavaScript's \<open>undefined\<close>. Numbers are integers; sequences
  inside a record and non-integral numbers are outside this model.
\<close>

datatype json =
    JNull
  | JBool bool
  | JNum int
  | JStr string
  | JObj "(string \<times> json) list"

type_synonym obj = "(string \<times> json) list"

text \<open>JavaScript's truthiness, as used by \<open>&&\<close>, \<open>!\<close> and \<open>if\<close>.\<close>

fun truthy :: "json option \<Rightarrow> bool" where
  "truthy None = False"
| "truthy (Some JNull) = False"
| "truthy (Some (JBool b)) = b"
| "truthy (Some (JNum n)) = (n \<noteq> 0)"
| "truthy (Some (JStr s)) = (s \<noteq> [])"
| "truthy (Some (JObj kvs)) = True"

text \<open>
  \<open>src/lib/error.js\<close> makes two error classes, \<open>ValidationError\<close> and
  \<open>ObjectNotFoundError\<close>. A \<open>ValidationError\<close> carries a message and
  properties. What the collection engine throws itself is an \<open>EngineError\<close>
  (a plain \<open>Error\<close> or \<open>TypeError\<close> of the library).
\<close>

datatype message =
    NoMessage
  | Literal string
  | DuplicateKeyMessage string json

datatype props =
    NoProps
  | SchemaDetails string
  | KeyValue string json

datatype error =
    ValidationError message props
  | ObjectNotFoundError
  | EngineError string

fun error_name :: "error \<Rightarrow> string" where
  "error_name (ValidationError m p) = ''ValidationError''"
| "error_name ObjectNotFoundError = ''ObjectNotFoundError''"
| "error_name (EngineError m) = ''Error''"

text \<open>
  A schema is an opaque validator: \<open>validate(value)\<close> gives either an error (its
  details, \<open>Inl\<close>) or the validated, possibly coerced or defaulted, value.
  \<open>Joi.any()\<close> accepts every value and returns it as it is.
\<close>

type_synonym object_schema = "obj \<Rightarrow> string + obj"
type_synonym collection_schema = "obj list \<Rightarrow> string + obj list"

definition Joi_any :: "'a \<Rightarrow> string + 'a" where
  "Joi_any v = Inr v"

section \<open>Object helpers\<close>

text \<open>
  \<open>_.pick(object, paths)\<close>: a new object with the listed keys that the object has, in
  the order of the list.
\<close>

fun pick :: "obj \<Rightarrow> string list \<Rightarrow> obj" where
  "pick ob [] = []"
| "pick ob (k # ks) =
     (case map_of ob k of
        None \<Rightarrow> pick ob ks
      | Some v \<Rightarrow> (k, v) # pick ob ks)"

text \<open>
  \<open>Object.assign(target, source)\<close>: every entry of the source is written into the
  target; a key the target has keeps its place, a new key goes to the end.
\<close>

fun Object_assign :: "obj \<Rightarrow> obj \<Rightarrow> obj" where
  "Object_assign target [] = target"
| "Object_assign target ((k, v) # src) = Object_assign (AList.update k v target) src"

text \<open>
  \<open>_.defaultsDeep(target, source)\<close>: a key the target lacks is copied from the source;
  where both hold an object the two are merged in the same way, one level down; in
  every other case the target's value stays.
\<close>

fun defaults_value :: "json \<Rightarrow> json \<Rightarrow> json"
  and defaults_object :: "obj \<Rightarrow> obj \<Rightarrow> obj" where
  "defaults_value (JObj d) (JObj s) = JObj (defaults_object d s)"
| "defaults_value d s = d"
| "defaults_object target [] = target"
| "defaults_object target ((k, v) # src) =
     defaults_object
       (case map_of target k of
          None \<Rightarrow> target @ [(k, v)]
        | Some dv \<Rightarrow> AList.update k (defaults_value dv v) target)
       src"

fun defaultsDeep :: "obj \<Rightarrow> obj list \<Rightarrow> obj" where
  "defaultsDeep target [] = target"
| "defaultsDeep target (s # ss) = defaultsDeep (defaults_object target s) ss"

text \<open>
  Modelled from the spec: \<open>stripLokiProperties\<close> of \<open>src/lib/object.js\<close>, a file
  that is not among the sources; only its test and its callers are. The spec has it strip
  the storage-owned fields, the identifier \<open>$loki\<close> and the metadata \<open>meta\<close>,
  from a record, and the test expects a result with neither property.
\<close>

definition stripLokiProperties :: "obj \<Rightarrow> obj" where
  "stripLokiProperties ob = filter (\<lambda>(k, v). k \<noteq> ''$loki'' \<and> k \<noteq> ''meta'') ob"

section \<open>The collection engine\<close>

text \<open>
  Modelled from the spec: the document-collection engine (the library LokiJS) is an
  external collaborator and no part of the repository's sources. Its operations follow
  the interface the spec lists (section 6) and the data model (section 3): a collection
  has a name, the unique field names it enforces, its live records and the last storage
  ID it gave out; \<open>insert\<close> assigns a fresh storage ID and fresh metadata;
  \<open>insert\<close> and \<open>update\<close> refuse a record that would share a non-null value with
  another live record on a unique field; an operation of the engine that throws leaves the
  collection as it was; adding a collection under a name that is taken is refused. Time stamps and
  the engine's upkeep of the metadata on \<open>update\<close> are not modelled: fresh metadata
  is one fixed object, and \<open>update\<close> stores the document as it is given.
\<close>

record collection =
  name :: string
  uniqueNames :: "string list"
  data :: "obj list"
  maxId :: int

definition fresh_meta :: json where
  "fresh_meta = JObj [(''revision'', JNum 0), (''created'', JNum 0), (''version'', JNum 0)]"

definition new_collection :: "string \<Rightarrow> string list \<Rightarrow> collection" where
  "new_collection n u = \<lparr>name = n, uniqueNames = u, data = [], maxId = 0\<rparr>"

text \<open>\<open>get(id)\<close>: the live record with this storage ID, or null.\<close>

definition coll_get :: "collection \<Rightarrow> json \<Rightarrow> obj option" where
  "coll_get c ident = find (\<lambda>r. map_of r ''$loki'' = Some ident) (data c)"

text \<open>
  \<open>by(field, value)\<close>: the live record with this value at a unique field, or
  undefined; a field without unique constraint is a \<open>TypeError\<close> (the repository's
  test of \<open>removeBy\<close> expects the throw).
\<close>

definition coll_by :: "collection \<Rightarrow> string \<Rightarrow> json \<Rightarrow> error + obj option" where
  "coll_by c field v =
     (if field \<in> set (uniqueNames c)
      then Inr (find (\<lambda>r. map_of r field = Some v) (data c))
      else Inl (EngineError ''TypeError''))"

text \<open>The engine's own check: some unique field of the document holds a non-null value
  that one of the given records holds at the same field.\<close>

definition clash :: "string list \<Rightarrow> obj \<Rightarrow> obj list \<Rightarrow> bool" where
  "clash u doc rs =
     list_ex (\<lambda>f. case map_of doc f of
                     None \<Rightarrow> False
                   | Some v \<Rightarrow> v \<noteq> JNull \<and> list_ex (\<lambda>r. map_of r f = Some v) rs) u"

definition stamp :: "int \<Rightarrow> obj \<Rightarrow> obj" where
  "stamp n doc = AList.update ''meta'' fresh_meta (AList.update ''$loki'' (JNum n) doc)"

definition coll_insert :: "collection \<Rightarrow> obj \<Rightarrow> error + (obj \<times> collection)" where
  "coll_insert c doc =
     (if map_of doc ''$loki'' \<noteq> None
      then Inl (EngineError ''Document is already in collection, please use update()'')
      else
        let stored = stamp (maxId c + 1) doc in
        if clash (uniqueNames c) stored (data c)
        then Inl (EngineError ''Duplicate key'')
        else Inr (stored, c\<lparr>data := data c @ [stored], maxId := maxId c + 1\<rparr>))"

text \<open>\<open>insert(array)\<close> inserts the documents one by one; a throw in the middle leaves
  the documents inserted before it in the collection.\<close>

fun coll_insert_all :: "collection \<Rightarrow> obj list \<Rightarrow> error option \<times> collection" where
  "coll_insert_all c [] = (None, c)"
| "coll_insert_all c (d # ds) =
     (case coll_insert c d of
        Inl e \<Rightarrow> (Some e, c)
      | Inr (stored, c') \<Rightarrow> coll_insert_all c' ds)"

fun position :: "json \<Rightarrow> obj list \<Rightarrow> nat option" where
  "position ident [] = None"
| "position ident (r # rs) =
     (if map_of r ''$loki'' = Some ident then Some 0
      else map_option Suc (position ident rs))"

definition coll_update :: "collection \<Rightarrow> obj \<Rightarrow> error + (obj \<times> collection)" where
  "coll_update c doc =
     (case map_of doc ''$loki'' of
        None \<Rightarrow> Inl (EngineError ''Trying to update unsynced document'')
      | Some ident \<Rightarrow>
          (case position ident (data c) of
             None \<Rightarrow> Inl (EngineError ''Trying to update a document not in collection'')
           | Some p \<Rightarrow>
               if clash (uniqueNames c) doc (take p (data c) @ drop (Suc p) (data c))
               then Inl (EngineError ''Duplicate key'')
               else Inr (doc, c\<lparr>data := (data c)[p := doc]\<rparr>)))"

definition coll_remove :: "collection \<Rightarrow> obj \<Rightarrow> error + collection" where
  "coll_remove c doc =
     (case map_of doc ''$loki'' of
        None \<Rightarrow> Inl (EngineError ''Object is not a document stored in the collection'')
      | Some ident \<Rightarrow>
          (case position ident (data c) of
             None \<Rightarrow> Inl (EngineError ''Object is not a document stored in the collection'')
           | Some p \<Rightarrow> Inr (c\<lparr>data := take p (data c) @ drop (Suc p) (data c)\<rparr>)))"

text \<open>
  Storage IDs as the engine hands them out: every live record carries a positive integer
  that is at most the last ID given out.
\<close>

definition valid_id :: "int \<Rightarrow> obj \<Rightarrow> bool" where
  "valid_id m r =
     (case map_of r ''$loki'' of
        Some (JNum n) \<Rightarrow> 1 \<le> n \<and> n \<le> m
      | _ \<Rightarrow> False)"

definition engine_ids :: "collection \<Rightarrow> bool" where
  "engine_ids c = (0 \<le> maxId c \<and> list_all (valid_id (maxId c)) (data c))"

text \<open>The database: its collections by name.\<close>

type_synonym database = "string \<rightharpoonup> collection"

definition getCollection :: "database \<Rightarrow> string \<Rightarrow> collection option" where
  "getCollection d n = d n"

definition addCollection :: "database \<Rightarrow> string \<Rightarrow> string list \<Rightarrow> error + database" where
  "addCollection d n u =
     (case d n of
        Some c \<Rightarrow> Inl (EngineError ''collection exists'')
      | None \<Rightarrow> Inr (d(n \<mapsto> new_collection n u)))"

definition removeCollection :: "database \<Rightarrow> string \<Rightarrow> database" where
  "removeCollection d n = d(n := None)"

section \<open>Collection helpers and extension methods\<close>

text \<open>
  \<open>src/lib/schema.js\<close>: \<open>lokiID = Joi.number().integer().min(1)\<close>. The function
  tells whether \<open>lokiID.validate(id).error\<close> is set. A string is taken as no number
  here (the library would convert a numeric string first).
\<close>

fun lokiID_error :: "json option \<Rightarrow> bool" where
  "lokiID_error None = False"
| "lokiID_error (Some (JNum n)) = (n < 1)"
| "lokiID_error (Some v) = True"

definition uniqueProperties :: "collection \<Rightarrow> string list" where
  "uniqueProperties c = uniqueNames c"

text \<open>
  \<open>hasUniqueProperties\<close> takes the keys as a list (\<open>shouldRebuild\<close> passes the
  validated list of the initializer).
\<close>

definition hasUniqueProperties :: "collection \<Rightarrow> string list \<Rightarrow> bool" where
  "hasUniqueProperties c ks = (filter (\<lambda>k. k \<notin> set (uniqueNames c)) ks = [])"

definition getByID :: "collection \<Rightarrow> json option \<Rightarrow> error + obj" where
  "getByID c ident =
     (if \<not> truthy ident \<or> lokiID_error ident then Inl (ValidationError NoMessage NoProps)
      else case coll_get c (the ident) of
             None \<Rightarrow> Inl ObjectNotFoundError
           | Some doc \<Rightarrow> Inr doc)"

definition removeBy :: "collection \<Rightarrow> string \<Rightarrow> json \<Rightarrow> error + collection" where
  "removeBy c field v =
     (case coll_by c field v of
        Inl e \<Rightarrow> Inl e
      | Inr None \<Rightarrow> Inr c
      | Inr (Some doc) \<Rightarrow> coll_remove c doc)"

definition upsert :: "collection \<Rightarrow> obj \<Rightarrow> error + (obj \<times> collection)" where
  "upsert c doc =
     (let ident = map_of doc ''$loki'' in
      if truthy ident \<and> coll_get c (the ident) \<noteq> None
      then coll_update c doc
      else coll_insert c (stripLokiProperties doc))"

definition validateObjectSchema :: "object_schema \<Rightarrow> obj \<Rightarrow> error + obj" where
  "validateObjectSchema sch doc =
     (case sch doc of
        Inl details \<Rightarrow> Inl (ValidationError NoMessage (SchemaDetails details))
      | Inr v \<Rightarrow> Inr v)"

text \<open>
  The body of the \<open>forEach\<close> over \<open>this.uniqueNames\<close>, key by key; the first key that
  throws ends the loop.
\<close>

fun uniqueLoop :: "collection \<Rightarrow> string list \<Rightarrow> obj \<Rightarrow> obj option \<Rightarrow> error + bool" where
  "uniqueLoop c [] doc existing = Inr True"
| "uniqueLoop c (key # keys) doc existing =
     (let keyValue = map_of doc key;
          equalExisting =
            (case existing of
               None \<Rightarrow> False
             | Some e \<Rightarrow> truthy (map_of e key) \<and> keyValue = map_of e key)
      in if truthy keyValue \<and> \<not> equalExisting
         then (case coll_by c key (the keyValue) of
                 Inl e \<Rightarrow> Inl e
               | Inr (Some other) \<Rightarrow>
                   Inl (ValidationError (DuplicateKeyMessage key (the keyValue))
                          (KeyValue key (the keyValue)))
               | Inr None \<Rightarrow> uniqueLoop c keys doc existing)
         else uniqueLoop c keys doc existing)"

definition validateUniqueProperties :: "collection \<Rightarrow> obj \<Rightarrow> obj option \<Rightarrow> error + bool" where
  "validateUniqueProperties c doc existing = uniqueLoop c (uniqueNames c) doc existing"

definition validateAndInsert ::
  "object_schema \<Rightarrow> collection \<Rightarrow> obj \<Rightarrow> error + (obj \<times> collection)" where
  "validateAndInsert sch c doc =
     (case validateObjectSchema sch doc of
        Inl e \<Rightarrow> Inl e
      | Inr validated \<Rightarrow>
          (case validateUniqueProperties c doc None of
             Inl e \<Rightarrow> Inl e
           | Inr ok \<Rightarrow> coll_insert c validated))"

definition validateAndReplace ::
  "object_schema \<Rightarrow> collection \<Rightarrow> obj \<Rightarrow> error + (obj \<times> collection)" where
  "validateAndReplace sch c doc =
     (case getByID c (map_of doc ''$loki'') of
        Inl e \<Rightarrow> Inl e
      | Inr existing \<Rightarrow>
          (case validateObjectSchema sch doc of
             Inl e \<Rightarrow> Inl e
           | Inr validated \<Rightarrow>
               (case validateUniqueProperties c validated (Some existing) of
                  Inl e \<Rightarrow> Inl e
                | Inr ok \<Rightarrow>
                    coll_update c
                      (Object_assign validated (pick existing [''$loki'', ''meta''])))))"

text \<open>
  The record that \<open>validateAndPatch\<close> builds: the pick of the existing record,
  completed from the patch and then from the existing record.
\<close>

definition patched :: "obj \<Rightarrow> obj \<Rightarrow> obj" where
  "patched existing doc = defaultsDeep (pick existing [''$loki'', ''meta'']) [doc, existing]"

definition validateAndPatch ::
  "object_schema \<Rightarrow> collection \<Rightarrow> obj \<Rightarrow> error + (obj \<times> collection)" where
  "validateAndPatch sch c doc =
     (case getByID c (map_of doc ''$loki'') of
        Inl e \<Rightarrow> Inl e
      | Inr existing \<Rightarrow>
          (case validateUniqueProperties c doc (Some existing) of
             Inl e \<Rightarrow> Inl e
           | Inr ok \<Rightarrow>
               (case validateObjectSchema sch (patched existing doc) of
                  Inl e \<Rightarrow> Inl e
                | Inr validated \<Rightarrow> coll_update c (patched existing doc))))"

text \<open>
  What a call of \<open>validateAndPatch\<close> that throws leaves behind. \<open>_.pick\<close> copies
  one level only, so the \<open>meta\<close> of the picked object is the \<open>meta\<close> object of the
  live record itself, and \<open>_.defaultsDeep\<close> writes into its first argument: once the
  merge has run, the live record holds the \<open>meta\<close> of the patched record, whatever
  happens next. \<open>getByID\<close> and \<open>validateUniqueProperties\<close> throw before the merge
  and leave the collection as it was; \<open>validateObjectSchema\<close> and \<open>update\<close> throw
  after it and leave the record with the merged \<open>meta\<close>.
\<close>

definition meta_written :: "obj \<Rightarrow> obj \<Rightarrow> obj" where
  "meta_written existing doc =
     (case map_of existing ''meta'' of
        None \<Rightarrow> existing
      | Some m \<Rightarrow>
          (case map_of (patched existing doc) ''meta'' of
             None \<Rightarrow> existing
           | Some pm \<Rightarrow> AList.update ''meta'' pm existing))"

definition live_update :: "collection \<Rightarrow> json \<Rightarrow> obj \<Rightarrow> collection" where
  "live_update c ident r =
     (case position ident (data c) of
        None \<Rightarrow> c
      | Some p \<Rightarrow> c\<lparr>data := (data c)[p := r]\<rparr>)"

definition validateAndPatch_thrown :: "collection \<Rightarrow> obj \<Rightarrow> collection" where
  "validateAndPatch_thrown c doc =
     (case getByID c (map_of doc ''$loki'') of
        Inl e \<Rightarrow> c
      | Inr existing \<Rightarrow>
          (case validateUniqueProperties c doc (Some existing) of
             Inl e \<Rightarrow> c
           | Inr ok \<Rightarrow>
               (case map_of doc ''$loki'' of
                  None \<Rightarrow> c
                | Some ident \<Rightarrow> live_update c ident (meta_written existing doc))))"

definition removeByID :: "collection \<Rightarrow> json option \<Rightarrow> error + (obj \<times> collection)" where
  "removeByID c ident =
     (case getByID c ident of
        Inl e \<Rightarrow> Inl e
      | Inr doc \<Rightarrow>
          (case coll_remove c doc of
             Inl e \<Rightarrow> Inl e
           | Inr c' \<Rightarrow> Inr (doc, c')))"

section \<open>The initializer\<close>

text \<open>
  The unique-keys argument of the factory is any JavaScript value: one value, or an
  array of values; the argument left out is the default \<open>[]\<close>.
\<close>

datatype key_input = Single json | Several "json list"

fun valueToArray :: "key_input \<Rightarrow> json list" where
  "valueToArray (Several vs) = vs"
| "valueToArray (Single v) = [v]"

text \<open>
  \<open>Schema.uniqueKeys = Joi.array().items(Joi.string().min(1)).unique()\<close>: every item
  is a string of at least one character and no item occurs twice.
\<close>

fun uniqueKey :: "json \<Rightarrow> string option" where
  "uniqueKey (JStr s) = (if 1 \<le> length s then Some s else None)"
| "uniqueKey v = None"

definition Schema_uniqueKeys :: "json list \<Rightarrow> string + string list" where
  "Schema_uniqueKeys vs =
     (case those (map uniqueKey vs) of
        None \<Rightarrow> Inl ''items''
      | Some ks \<Rightarrow> if distinct ks then Inr ks else Inl ''unique'')"

record initializer =
  db :: database
  collectionName :: string
  uniqueKeys :: "string list"
  collectionSchema :: collection_schema
  objectSchema :: object_schema

text \<open>
  The factory validates the unique keys and puts the members together; the database
  handle is stored, not used. Arguments left out take their defaults.
\<close>

definition Initializer ::
  "database \<Rightarrow> string \<Rightarrow> key_input option \<Rightarrow> collection_schema option \<Rightarrow>
   object_schema option \<Rightarrow> error + initializer" where
  "Initializer d n keys cs os =
     (case Schema_uniqueKeys
             (valueToArray (case keys of None \<Rightarrow> Several [] | Some k \<Rightarrow> k)) of
        Inl details \<Rightarrow> Inl (ValidationError (Literal ''invalid uniqueKeys'') NoProps)
      | Inr ks \<Rightarrow>
          Inr \<lparr>db = d, collectionName = n, uniqueKeys = ks,
               collectionSchema = (case cs of None \<Rightarrow> Joi_any | Some f \<Rightarrow> f),
               objectSchema = (case os of None \<Rightarrow> Joi_any | Some f \<Rightarrow> f)\<rparr>)"

text \<open>
  The methods work on \<open>this.db\<close>: each returns the error it threw, if any, and the
  initializer with the database as the call left it. The four hooks (\<open>preCreate\<close>,
  \<open>postCreate\<close>, \<open>preRebuild\<close>, \<open>postRebuild\<close>) only log unless overridden and
  are not modelled.
\<close>

definition shouldRebuild :: "initializer \<Rightarrow> bool" where
  "shouldRebuild i =
     (case getCollection (db i) (collectionName i) of
        None \<Rightarrow> True
      | Some existingCollection \<Rightarrow> \<not> hasUniqueProperties existingCollection (uniqueKeys i))"

definition create :: "initializer \<Rightarrow> error option \<times> initializer" where
  "create i =
     (case addCollection (db i) (collectionName i) (uniqueKeys i) of
        Inl e \<Rightarrow> (Some e, i)
      | Inr d \<Rightarrow> (None, i\<lparr>db := d\<rparr>))"

definition rebuild :: "initializer \<Rightarrow> error option \<times> initializer" where
  "rebuild i =
     (case getCollection (db i) (collectionName i) of
        None \<Rightarrow> create i
      | Some existingCollection \<Rightarrow>
          (case collectionSchema i (map stripLokiProperties (data existingCollection)) of
             Inl details \<Rightarrow>
               (Some (ValidationError
                        (Literal (''unable to rebuild '' @ collectionName i @
                                  '' collection: invalid existing data''))
                        NoProps), i)
           | Inr v \<Rightarrow>
               (case create (i\<lparr>db := removeCollection (db i) (collectionName i)\<rparr>) of
                  (Some e, i1) \<Rightarrow> (Some e, i1)
                | (None, i1) \<Rightarrow>
                    (case getCollection (db i1) (collectionName i1) of
                       None \<Rightarrow> (Some (EngineError ''TypeError''), i1)
                     | Some fresh \<Rightarrow>
                         (case coll_insert_all fresh v of
                            (e, filled) \<Rightarrow>
                              (e, i1\<lparr>db := (db i1)(collectionName i1 \<mapsto> filled)\<rparr>))))))"

definition initialize :: "initializer \<Rightarrow> (error + collection) \<times> initializer" where
  "initialize i =
     (case (if shouldRebuild i then rebuild i else (None, i)) of
        (Some e, i1) \<Rightarrow> (Inl e, i1)
      | (None, i1) \<Rightarrow>
          (case getCollection (db i1) (collectionName i1) of
             None \<Rightarrow> (Inl (EngineError ''TypeError''), i1)
           | Some c \<Rightarrow> (Inr c, i1)))"

section \<open>Notions used in the statements\<close>

text \<open>The non-null values that the records hold at a field, in the order of the records.\<close>

fun unique_values :: "string \<Rightarrow> obj list \<Rightarrow> json list" where
  "unique_values f [] = []"
| "unique_values f (r # rs) =
     (case map_of r f of
        None \<Rightarrow> unique_values f rs
      | Some v \<Rightarrow> if v = JNull then unique_values f rs else v # unique_values f rs)"

text \<open>
  Invariant I1 as the spec words it: on every unique field, no two different live
  records hold equal non-null values.
\<close>

definition shares :: "string \<Rightarrow> obj \<Rightarrow> obj \<Rightarrow> bool" where
  "shares f r1 r2 =
     (case (map_of r1 f, map_of r2 f) of
        (Some v, Some w) \<Rightarrow> v \<noteq> JNull \<and> w \<noteq> JNull \<and> v = w
      | _ \<Rightarrow> False)"

definition I1 :: "collection \<Rightarrow> bool" where
  "I1 c = (\<forall>f \<in> set (uniqueNames c). \<forall>k < length (data c). \<forall>j < length (data c).
             k \<noteq> j \<longrightarrow> \<not> shares f (data c ! k) (data c ! j))"

text \<open>The records that \<open>insert(array)\<close> stores, given the last storage ID handed out.\<close>

fun stamp_all :: "int \<Rightarrow> obj list \<Rightarrow> obj list" where
  "stamp_all m [] = []"
| "stamp_all m (d # ds) = stamp (m + 1) d # stamp_all (m + 1) ds"

text \<open>
  The engine takes a sequence of documents into an empty collection: none carries a
  storage ID, and once stamped no two share a non-null value on a unique field.
\<close>

definition accepted :: "string list \<Rightarrow> obj list \<Rightarrow> bool" where
  "accepted u docs =
     (list_all (\<lambda>d. map_of d ''$loki'' = None) docs
      \<and> list_all (\<lambda>f. distinct (unique_values f (stamp_all 0 docs))) u)"


text \<open>
  What the loop of \<open>validateUniqueProperties\<close> looks for at one key: the document's
  value is truthy, it is not the value of the existing record, and a live record holds it.
\<close>

definition offending :: "collection \<Rightarrow> obj \<Rightarrow> obj option \<Rightarrow> string \<Rightarrow> bool" where
  "offending c doc existing key =
     (truthy (map_of doc key)
      \<and> (case existing of None \<Rightarrow> True | Some e \<Rightarrow> map_of e key \<noteq> map_of doc key)
      \<and> (\<exists>r \<in> set (data c). map_of r key = map_of doc key))"

text \<open>
  A run of validated operations on one collection; after a call that throws, the run
  goes on with the next call. A throwing call leaves the collection as it was, except
  \<open>validateAndPatch\<close>, which leaves what its merge has written.
\<close>

datatype operation =
    ValidateAndInsert obj
  | ValidateAndReplace obj
  | ValidateAndPatch obj
  | Upsert obj
  | RemoveByID "json option"

fun after :: "collection \<Rightarrow> error + (obj \<times> collection) \<Rightarrow> collection" where
  "after c (Inl e) = c"
| "after c (Inr (r, c')) = c'"

fun apply_operation :: "object_schema \<Rightarrow> collection \<Rightarrow> operation \<Rightarrow> collection" where
  "apply_operation sch c (ValidateAndInsert doc) = after c (validateAndInsert sch c doc)"
| "apply_operation sch c (ValidateAndReplace doc) = after c (validateAndReplace sch c doc)"
| "apply_operation sch c (ValidateAndPatch doc) =
     (case validateAndPatch sch c doc of
        Inl e \<Rightarrow> validateAndPatch_thrown c doc
      | Inr (r, c') \<Rightarrow> c')"
| "apply_operation sch c (Upsert doc) = after c (upsert c doc)"
| "apply_operation sch c (RemoveByID ident) = after c (removeByID c ident)"

definition run :: "object_schema \<Rightarrow> collection \<Rightarrow> operation list \<Rightarrow> collection" where
  "run sch c ops = foldl (apply_operation sch) c ops"

section \<open>The collections and schemas of the repository's tests\<close>

text \<open>
  \<open>src/lib/collection.test.js\<close>, the collection \<open>TESTS\<close> after \<open>reset\<close>: unique
  field \<open>slug\<close>, two records.
\<close>

definition rec_a :: obj where
  "rec_a = [(''slug'', JStr ''a''), (''content'', JStr ''123''),
            (''$loki'', JNum 1), (''meta'', fresh_meta)]"

definition rec_b :: obj where
  "rec_b = [(''slug'', JStr ''b''), (''content'', JStr ''456''),
            (''$loki'', JNum 2), (''meta'', fresh_meta)]"

definition tests_collection :: collection where
  "tests_collection =
     \<lparr>name = ''TESTS'', uniqueNames = [''slug''], data = [rec_a, rec_b], maxId = 2\<rparr>"

text \<open>
  The object schema of the same tests: \<open>slug\<close> a required string of at least one
  character, \<open>content\<close> a string (not empty, as the library has it), \<open>isDisabled\<close>
  a boolean with default \<open>false\<close>, unknown keys allowed.
\<close>

definition test_objectSchema :: object_schema where
  "test_objectSchema doc =
     (case map_of doc ''slug'' of
        Some (JStr s) \<Rightarrow>
          if s = [] then Inl ''slug''
          else (case map_of doc ''content'' of
                  Some (JStr t) \<Rightarrow>
                    if t = [] then Inl ''content''
                    else (case map_of doc ''isDisabled'' of
                            None \<Rightarrow> Inr (doc @ [(''isDisabled'', JBool False)])
                          | Some (JBool b) \<Rightarrow> Inr doc
                          | Some v \<Rightarrow> Inl ''isDisabled'')
                | None \<Rightarrow>
                    (case map_of doc ''isDisabled'' of
                       None \<Rightarrow> Inr (doc @ [(''isDisabled'', JBool False)])
                     | Some (JBool b) \<Rightarrow> Inr doc
                     | Some v \<Rightarrow> Inl ''isDisabled'')
                | Some v \<Rightarrow> Inl ''content'')
      | Some v \<Rightarrow> Inl ''slug''
      | None \<Rightarrow> Inl ''slug'')"

text \<open>
  The collection schema of the tests of the extension methods,
  \<open>Joi.array().items(objectSchema).unique('slug')\<close>.
\<close>

definition test_collectionSchema :: collection_schema where
  "test_collectionSchema docs =
     (if list_all (\<lambda>d. case test_objectSchema d of Inl e \<Rightarrow> False | Inr v \<Rightarrow> True) docs
      then (if distinct (map (\<lambda>d. map_of d ''slug'') docs)
            then Inr (map (\<lambda>d. case test_objectSchema d of Inl e \<Rightarrow> d | Inr v \<Rightarrow> v) docs)
            else Inl ''unique'')
      else Inl ''items'')"

text \<open>Documents used with the collection \<open>TESTS\<close>.\<close>

definition doc_c :: obj where
  "doc_c = [(''slug'', JStr ''c''), (''content'', JStr ''789'')]"

definition doc_bad_duplicate :: obj where
  "doc_bad_duplicate = [(''slug'', JStr ''a''), (''content'', JNum 5)]"

definition patch_c :: obj where
  "patch_c = [(''$loki'', JNum 1), (''slug'', JStr ''c''), (''extra'', JStr ''xxx'')]"

definition replace_c :: obj where
  "replace_c = [(''$loki'', JNum 1), (''slug'', JStr ''c'')]"

definition patched_a :: obj where
  "patched_a = [(''$loki'', JNum 1), (''meta'', fresh_meta), (''slug'', JStr ''c''),
                (''extra'', JStr ''xxx''), (''content'', JStr ''123'')]"

definition replaced_a :: obj where
  "replaced_a = [(''$loki'', JNum 1), (''slug'', JStr ''c''),
                 (''isDisabled'', JBool False), (''meta'', fresh_meta)]"

definition inserted_c :: obj where
  "inserted_c = [(''slug'', JStr ''c''), (''content'', JStr ''789''),
                 (''isDisabled'', JBool False), (''$loki'', JNum 3), (''meta'', fresh_meta)]"

definition upsert_new :: obj where
  "upsert_new = [(''$loki'', JNum 42), (''meta'', JObj []), (''slug'', JStr ''c''),
                 (''content'', JStr ''789'')]"

definition upsert_a :: obj where
  "upsert_a = [(''slug'', JNum 5), (''$loki'', JNum 1), (''meta'', fresh_meta)]"

definition upserted_c :: obj where
  "upserted_c = [(''slug'', JStr ''c''), (''content'', JStr ''789''),
                 (''$loki'', JNum 3), (''meta'', fresh_meta)]"

definition upsert_duplicate :: obj where
  "upsert_duplicate = [(''slug'', JStr ''b''), (''$loki'', JNum 3), (''meta'', fresh_meta)]"

text \<open>A patch that supplies a \<open>meta\<close> object, and the record it leaves.\<close>

definition patch_meta :: obj where
  "patch_meta = [(''$loki'', JNum 1), (''meta'', JObj [(''injected'', JNum 1)])]"

definition injected_a :: obj where
  "injected_a =
     [(''$loki'', JNum 1),
      (''meta'', JObj [(''revision'', JNum 0), (''created'', JNum 0), (''version'', JNum 0),
                       (''injected'', JNum 1)]),
      (''slug'', JStr ''a''), (''content'', JStr ''123'')]"





text \<open>
  The collection \<open>UNIQUES\<close> of the tests of \<open>validateUniqueProperties\<close>, unique
  fields \<open>u1\<close> and \<open>u2\<close>, here with the number 0 as one of the values of \<open>u1\<close>.
\<close>

definition zero_rec :: obj where
  "zero_rec = [(''u1'', JNum 0), (''u2'', JStr ''a''), (''$loki'', JNum 1), (''meta'', fresh_meta)]"

definition two_rec :: obj where
  "two_rec = [(''u1'', JNum 2), (''u2'', JStr ''b''), (''$loki'', JNum 2), (''meta'', fresh_meta)]"

definition uniques_collection :: collection where
  "uniques_collection =
     \<lparr>name = ''UNIQUES'', uniqueNames = [''u1'', ''u2''], data = [zero_rec, two_rec],
      maxId = 2\<rparr>"

text \<open>
  The rebuild tests: a collection \<open>TESTS\<close> without unique fields, filled with
  \<open>db.addCollection('TESTS').insert(data)\<close>, and the collection schema
  \<open>Joi.array().items(Joi.object().keys({name: Joi.number().required()}))\<close>: every
  record has the one key \<open>name\<close>, a number.
\<close>

definition people :: "obj list \<Rightarrow> collection" where
  "people docs = snd (coll_insert_all (new_collection ''TESTS'' []) docs)"

definition john_smith :: obj where
  "john_smith = [(''name'', JStr ''john''), (''content'', JStr ''smith'')]"

definition julius_caesar :: obj where
  "julius_caesar = [(''name'', JStr ''julius''), (''content'', JStr ''caesar'')]"

definition john_travolta :: obj where
  "john_travolta = [(''name'', JStr ''john''), (''content'', JStr ''travolta'')]"

definition number_name_schema :: collection_schema where
  "number_name_schema docs =
     (if list_all (\<lambda>d. case d of [(k, JNum n)] \<Rightarrow> k = ''name'' | _ \<Rightarrow> False) docs
      then Inr docs else Inl ''name'')"

definition rebuilder :: "obj list \<Rightarrow> string list \<Rightarrow> collection_schema \<Rightarrow> initializer" where
  "rebuilder docs keys sch =
     \<lparr>db = [''TESTS'' \<mapsto> people docs], collectionName = ''TESTS'', uniqueKeys = keys,
      collectionSchema = sch, objectSchema = Joi_any\<rparr>"





definition marked_meta :: json where
  "marked_meta = JObj [(''revision'', JNum 0), (''created'', JNum 0), (''version'', JNum 0),
                       (''x'', JNum 1)]"

definition marked_one :: obj where
  "marked_one = [(''$loki'', JNum 1), (''meta'', marked_meta), (''a'', JNum 1)]"

definition stored_two :: obj where
  "stored_two = [(''a'', JNum 2), (''$loki'', JNum 2), (''meta'', fresh_meta)]"

definition marked_two :: obj where
  "marked_two = [(''a'', JNum 2), (''$loki'', JNum 2), (''meta'', marked_meta)]"

definition metas_collection :: collection where
  "metas_collection =
     \<lparr>name = ''TESTS'', uniqueNames = [''meta''], data = [marked_one, stored_two], maxId = 2\<rparr>"

section \<open>Facts about the engine and the object helpers\<close>

lemmas test_defs = tests_collection_def rec_a_def rec_b_def test_objectSchema_def

lemmas op_defs =
  validateAndInsert_def validateAndReplace_def validateAndPatch_def validateObjectSchema_def
  validateUniqueProperties_def getByID_def coll_get_def coll_by_def coll_insert_def
  coll_update_def coll_remove_def clash_def stamp_def patched_def Let_def

lemma set_unique_values:
  "set (unique_values f rs) = {v. v \<noteq> JNull \<and> (\<exists>r \<in> set rs. map_of r f = Some v)}"
  by (induction rs) (auto split: option.splits)

lemma unique_values_append:
  "unique_values f (xs @ ys) = unique_values f xs @ unique_values f ys"
  by (induction xs) (auto split: option.splits)

lemma clash_iff:
  "clash u doc rs \<longleftrightarrow>
     (\<exists>f \<in> set u. \<exists>v. map_of doc f = Some v \<and> v \<noteq> JNull \<and> v \<in> set (unique_values f rs))"
proof -
  have "(case map_of doc f of
           None \<Rightarrow> False
         | Some v \<Rightarrow> v \<noteq> JNull \<and> list_ex (\<lambda>r. map_of r f = Some v) rs)
        \<longleftrightarrow> (\<exists>v. map_of doc f = Some v \<and> v \<noteq> JNull \<and> v \<in> set (unique_values f rs))" for f
    by (cases "map_of doc f") (simp_all add: list_ex_iff set_unique_values)
  then show ?thesis
    by (simp add: clash_def list_ex_iff)
qed

lemma no_clash_distinct:
  assumes "\<forall>f \<in> set u. distinct (unique_values f (rs @ [doc]))"
  shows "\<not> clash u doc rs"
proof
  assume "clash u doc rs"
  then obtain f v where f: "f \<in> set u" and v: "map_of doc f = Some v" "v \<noteq> JNull"
    and m: "v \<in> set (unique_values f rs)"
    by (auto simp: clash_iff)
  from f assms have "distinct (unique_values f rs @ unique_values f [doc])"
    by (simp add: unique_values_append)
  with v m show False by simp
qed

lemma position_Some:
  "position ident rs = Some p \<Longrightarrow> p < length rs \<and> map_of (rs ! p) ''$loki'' = Some ident"
  by (induction rs arbitrary: p) (auto split: if_splits)

lemma coll_update_result:
  assumes "coll_update c d = Inr (r, c')"
  shows "r = d \<and> (\<exists>p < length (data c). c' = c\<lparr>data := (data c)[p := d]\<rparr>
           \<and> \<not> clash (uniqueNames c) d (take p (data c) @ drop (Suc p) (data c)))"
  using assms
  by (auto simp: coll_update_def split: option.splits if_splits dest: position_Some)

lemma coll_insert_result:
  assumes "coll_insert c d = Inr (r, c')"
  shows "r = stamp (maxId c + 1) d
         \<and> c' = c\<lparr>data := data c @ [r], maxId := maxId c + 1\<rparr>
         \<and> \<not> clash (uniqueNames c) r (data c)"
  using assms by (auto simp: coll_insert_def Let_def split: if_splits)

lemma coll_update_engine_error: "coll_update c d \<noteq> Inl (ValidationError m p)"
  by (simp add: coll_update_def split: option.splits)

lemma coll_insert_engine_error: "coll_insert c d \<noteq> Inl (ValidationError m p)"
  by (simp add: coll_insert_def Let_def)

lemma map_of_stamp:
  "map_of (stamp n d) k =
     (if k = ''meta'' then Some fresh_meta
      else if k = ''$loki'' then Some (JNum n) else map_of d k)"
  by (simp add: stamp_def update_conv')

lemma map_of_strip:
  "map_of (stripLokiProperties ob) k =
     (if k = ''$loki'' \<or> k = ''meta'' then None else map_of ob k)"
  by (induction ob) (auto simp: stripLokiProperties_def)

lemma strip_update:
  "k = ''$loki'' \<or> k = ''meta'' \<Longrightarrow>
   stripLokiProperties (AList.update k v ob) = stripLokiProperties ob"
  by (induction ob) (auto simp: stripLokiProperties_def)

lemma strip_stamp: "stripLokiProperties (stamp n d) = stripLokiProperties d"
  by (simp add: stamp_def strip_update)

lemma uniqueLoop_True: "uniqueLoop c keys doc existing = Inr b \<Longrightarrow> b"
  by (induction keys) (auto simp: Let_def split: if_splits sum.splits option.splits)

lemma validateUniqueProperties_True:
  "validateUniqueProperties c doc existing = Inr b \<Longrightarrow> b"
  unfolding validateUniqueProperties_def by (rule uniqueLoop_True)

lemma getByID_Inr:
  assumes "getByID c i = Inr e"
  shows "\<exists>n. i = Some (JNum n) \<and> 1 \<le> n \<and> e \<in> set (data c)
           \<and> map_of e ''$loki'' = Some (JNum n)"
proof -
  from assms obtain v where i: "i = Some v" and t: "\<not> lokiID_error (Some v)"
    by (cases i) (auto simp: getByID_def split: if_splits)
  from t obtain n where v: "v = JNum n" and n: "1 \<le> n"
    by (cases v) auto
  from assms i t have "coll_get c v = Some e"
    by (auto simp: getByID_def split: if_splits option.splits)
  then have "e \<in> set (data c) \<and> map_of e ''$loki'' = Some v"
    by (auto simp: coll_get_def find_Some_iff)
  with i v n show ?thesis by simp
qed

lemma validateAndPatch_Inr:
  assumes "validateAndPatch sch c doc = Inr (r, c')"
  shows "\<exists>existing validated.
           getByID c (map_of doc ''$loki'') = Inr existing
         \<and> validateUniqueProperties c doc (Some existing) = Inr True
         \<and> sch (patched existing doc) = Inr validated
         \<and> coll_update c (patched existing doc) = Inr (r, c')"
proof -
  from assms obtain existing where e: "getByID c (map_of doc ''$loki'') = Inr existing"
    by (cases "getByID c (map_of doc ''$loki'')") (simp_all add: validateAndPatch_def)
  from assms e obtain b where u: "validateUniqueProperties c doc (Some existing) = Inr b"
    by (cases "validateUniqueProperties c doc (Some existing)")
       (simp_all add: validateAndPatch_def)
  from assms e u obtain validated where v: "sch (patched existing doc) = Inr validated"
    by (cases "sch (patched existing doc)")
       (simp_all add: validateAndPatch_def validateObjectSchema_def)
  from assms e u v have "coll_update c (patched existing doc) = Inr (r, c')"
    by (simp add: validateAndPatch_def validateObjectSchema_def)
  with e u v validateUniqueProperties_True [OF u] show ?thesis by auto
qed

lemma validateAndReplace_Inr:
  assumes "validateAndReplace sch c doc = Inr (r, c')"
  shows "\<exists>existing validated.
           getByID c (map_of doc ''$loki'') = Inr existing
         \<and> sch doc = Inr validated
         \<and> validateUniqueProperties c validated (Some existing) = Inr True
         \<and> coll_update c (Object_assign validated (pick existing [''$loki'', ''meta'']))
             = Inr (r, c')"
proof -
  from assms obtain existing where e: "getByID c (map_of doc ''$loki'') = Inr existing"
    by (cases "getByID c (map_of doc ''$loki'')") (simp_all add: validateAndReplace_def)
  from assms e obtain validated where v: "sch doc = Inr validated"
    by (cases "sch doc") (simp_all add: validateAndReplace_def validateObjectSchema_def)
  from assms e v obtain b where u: "validateUniqueProperties c validated (Some existing) = Inr b"
    by (cases "validateUniqueProperties c validated (Some existing)")
       (simp_all add: validateAndReplace_def validateObjectSchema_def)
  from assms e u v
  have "coll_update c (Object_assign validated (pick existing [''$loki'', ''meta'']))
          = Inr (r, c')"
    by (simp add: validateAndReplace_def validateObjectSchema_def)
  with e u v validateUniqueProperties_True [OF u] show ?thesis by auto
qed

lemma validateAndInsert_Inr:
  assumes "validateAndInsert sch c doc = Inr (r, c')"
  shows "\<exists>validated. sch doc = Inr validated
         \<and> validateUniqueProperties c doc None = Inr True
         \<and> coll_insert c validated = Inr (r, c')"
proof -
  from assms obtain validated where v: "sch doc = Inr validated"
    by (cases "sch doc") (simp_all add: validateAndInsert_def validateObjectSchema_def)
  from assms v obtain b where u: "validateUniqueProperties c doc None = Inr b"
    by (cases "validateUniqueProperties c doc None")
       (simp_all add: validateAndInsert_def validateObjectSchema_def)
  from assms v u have "coll_insert c validated = Inr (r, c')"
    by (simp add: validateAndInsert_def validateObjectSchema_def)
  with v u validateUniqueProperties_True [OF u] show ?thesis by auto
qed


lemma map_of_Object_assign_pick:
  "map_of (Object_assign v (pick e [''$loki'', ''meta''])) k =
     (if k = ''meta'' \<and> map_of e ''meta'' \<noteq> None then map_of e ''meta''
      else if k = ''$loki'' \<and> map_of e ''$loki'' \<noteq> None then map_of e ''$loki''
      else map_of v k)"
  by (auto simp: update_conv' split: option.splits)

section \<open>Rebuild\<close>

text \<open>
  C1 (rebuild atomicity). When the collection exists and its stripped data fails the
  collection-level schema, \<open>rebuild\<close> throws a \<open>ValidationError\<close> and the
  initializer's database is the one it was called with: \<open>getCollection\<close> still gives
  the original collection, with every record as before. The removal of the collection is
  not reached.
\<close>

theorem rebuild_atomicity:
  assumes "getCollection (db i) (collectionName i) = Some c"
    and "collectionSchema i (map stripLokiProperties (data c)) = Inl details"
  shows "rebuild i =
           (Some (ValidationError
                    (Literal (''unable to rebuild '' @ collectionName i @
                              '' collection: invalid existing data'')) NoProps), i)
         \<and> error_name (the (fst (rebuild i))) = ''ValidationError''
         \<and> getCollection (db (snd (rebuild i))) (collectionName i) = Some c"
  using assms by (simp add: rebuild_def)

theorem rebuild_atomicity_witness:
  "getCollection (db (rebuilder [[(''name'', JStr ''john'')]] [] number_name_schema))
     (collectionName (rebuilder [[(''name'', JStr ''john'')]] [] number_name_schema))
     = Some (people [[(''name'', JStr ''john'')]])
   \<and> collectionSchema (rebuilder [[(''name'', JStr ''john'')]] [] number_name_schema)
       (map stripLokiProperties (data (people [[(''name'', JStr ''john'')]]))) = Inl ''name''
   \<and> fst (rebuild (rebuilder [[(''name'', JStr ''john'')]] [] number_name_schema))
       = Some (ValidationError
                 (Literal ''unable to rebuild TESTS collection: invalid existing data'') NoProps)
   \<and> getCollection
        (db (snd (rebuild (rebuilder [[(''name'', JStr ''john'')]] [] number_name_schema))))
        ''TESTS'' = Some (people [[(''name'', JStr ''john'')]])
   \<and> length (data (people [[(''name'', JStr ''john'')]])) = 1"
proof -
  let ?i = "rebuilder [[(''name'', JStr ''john'')]] [] number_name_schema"
  let ?c = "people [[(''name'', JStr ''john'')]]"
  have g: "getCollection (db ?i) (collectionName ?i) = Some ?c"
    by (simp add: rebuilder_def getCollection_def)
  have d: "data ?c = [[(''name'', JStr ''john''), (''$loki'', JNum 1), (''meta'', fresh_meta)]]"
    by (simp add: people_def new_collection_def coll_insert_def stamp_def clash_def Let_def)
  have s: "collectionSchema ?i (map stripLokiProperties (data ?c)) = Inl ''name''"
    by (simp add: d rebuilder_def stripLokiProperties_def number_name_schema_def)
  have n: "collectionName ?i = ''TESTS''"
    by (simp add: rebuilder_def)
  show ?thesis
    using rebuild_atomicity [OF g s] g s d n by simp
qed

lemma coll_insert_all_accepted:
  assumes "\<forall>d \<in> set docs. map_of d ''$loki'' = None"
    and "\<forall>f \<in> set (uniqueNames c). distinct (unique_values f (data c @ stamp_all (maxId c) docs))"
  shows "coll_insert_all c docs =
           (None, c\<lparr>data := data c @ stamp_all (maxId c) docs,
                    maxId := maxId c + int (length docs)\<rparr>)"
  using assms
proof (induction docs arbitrary: c)
  case Nil
  then show ?case by simp
next
  case (Cons d ds)
  let ?stored = "stamp (maxId c + 1) d"
  let ?c' = "c\<lparr>data := data c @ [?stored], maxId := maxId c + 1\<rparr>"
  have "distinct (unique_values f (data c @ [?stored]))" if "f \<in> set (uniqueNames c)" for f
  proof -
    have "distinct (unique_values f ((data c @ [?stored]) @ stamp_all (maxId c + 1) ds))"
      using Cons.prems(2) that by simp
    then have "distinct (unique_values f (data c @ [?stored])
                         @ unique_values f (stamp_all (maxId c + 1) ds))"
      by (simp only: unique_values_append)
    then show ?thesis
      by (simp only: distinct_append)
  qed
  then have "\<forall>f \<in> set (uniqueNames c). distinct (unique_values f (data c @ [?stored]))"
    by blast
  then have nc: "\<not> clash (uniqueNames c) ?stored (data c)"
    by (rule no_clash_distinct)
  have ins: "coll_insert c d = Inr (?stored, ?c')"
    using Cons.prems(1) nc by (simp add: coll_insert_def Let_def)
  have "coll_insert_all ?c' ds =
          (None, ?c'\<lparr>data := data ?c' @ stamp_all (maxId ?c') ds,
                      maxId := maxId ?c' + int (length ds)\<rparr>)"
    using Cons.prems by (intro Cons.IH) auto
  then show ?case
    using ins by simp
qed

lemma length_stamp_all: "length (stamp_all m ds) = length ds"
  by (induction ds arbitrary: m) simp_all

lemma stamp_all_nth:
  "j < length ds \<Longrightarrow> stamp_all m ds ! j = stamp (m + 1 + int j) (ds ! j)"
proof (induction ds arbitrary: m j)
  case Nil
  then show ?case by simp
next
  case (Cons d ds)
  show ?case
  proof (cases j)
    case 0
    then show ?thesis by simp
  next
    case (Suc i)
    with Cons.prems have "i < length ds" by simp
    have "m + 1 + 1 + int i = m + 1 + int (Suc i)" by simp
    with Cons.IH [OF \<open>i < length ds\<close>, of "m + 1"] Suc show ?thesis
      by (simp add: algebra_simps)
  qed
qed

lemma people_two:
  "map_of d1 ''$loki'' = None \<Longrightarrow> map_of d2 ''$loki'' = None \<Longrightarrow>
   people [d1, d2] =
     \<lparr>name = ''TESTS'', uniqueNames = [], data = [stamp 1 d1, stamp 2 d2], maxId = 2\<rparr>"
  by (simp add: people_def new_collection_def coll_insert_def clash_def Let_def)

lemma people_one:
  "map_of d1 ''$loki'' = None \<Longrightarrow>
   people [d1] = \<lparr>name = ''TESTS'', uniqueNames = [], data = [stamp 1 d1], maxId = 1\<rparr>"
  by (simp add: people_def new_collection_def coll_insert_def clash_def Let_def)

text \<open>
  C2 (rebuild data preservation), as amended. When the collection exists, its stripped
  data passes the collection-level schema with validated value \<open>v\<close>, and the engine
  accepts \<open>v\<close> (no record of \<open>v\<close> carries a storage ID, and no two share a non-null
  value on a configured unique field), \<open>rebuild\<close> returns normally and the collection
  of that name is a new one with exactly the configured unique field names, holding the
  records of \<open>v\<close> in their order with storage IDs 1, 2, ... and fresh metadata: as
  many records as \<open>v\<close>, each agreeing with its validated record on every field but
  \<open>$loki\<close> and \<open>meta\<close>.
\<close>

theorem rebuild_preserves_validated:
  assumes "getCollection (db i) (collectionName i) = Some c"
    and "collectionSchema i (map stripLokiProperties (data c)) = Inr v"
    and "accepted (uniqueKeys i) v"
  shows "rebuild i =
           (None, i\<lparr>db := (db i)(collectionName i \<mapsto>
                      \<lparr>name = collectionName i, uniqueNames = uniqueKeys i,
                       data = stamp_all 0 v, maxId = int (length v)\<rparr>)\<rparr>)
         \<and> length (stamp_all 0 v) = length v
         \<and> (\<forall>j < length v.
               map_of (stamp_all 0 v ! j) ''$loki'' = Some (JNum (int j + 1))
             \<and> map_of (stamp_all 0 v ! j) ''meta'' = Some fresh_meta
             \<and> (\<forall>k. k \<noteq> ''$loki'' \<and> k \<noteq> ''meta'' \<longrightarrow>
                    map_of (stamp_all 0 v ! j) k = map_of (v ! j) k))"
proof -
  let ?n = "collectionName i"
  let ?fresh = "new_collection ?n (uniqueKeys i)"
  have "coll_insert_all ?fresh v =
          (None, ?fresh\<lparr>data := data ?fresh @ stamp_all (maxId ?fresh) v,
                        maxId := maxId ?fresh + int (length v)\<rparr>)"
    using assms(3)
    by (intro coll_insert_all_accepted)
       (simp_all add: accepted_def list_all_iff new_collection_def)
  then have ins: "coll_insert_all ?fresh v =
          (None, \<lparr>name = ?n, uniqueNames = uniqueKeys i,
                  data = stamp_all 0 v, maxId = int (length v)\<rparr>)"
    by (simp add: new_collection_def)
  have "rebuild i =
          (None, i\<lparr>db := (db i)(?n \<mapsto>
                     \<lparr>name = ?n, uniqueNames = uniqueKeys i,
                      data = stamp_all 0 v, maxId = int (length v)\<rparr>)\<rparr>)"
    using assms(1,2) ins
    by (simp add: rebuild_def create_def addCollection_def removeCollection_def
        getCollection_def)
  then show ?thesis
    by (simp add: length_stamp_all stamp_all_nth map_of_stamp)
qed

theorem rebuild_preserves_validated_witness:
  "getCollection (db (rebuilder [john_smith, julius_caesar] [''name''] Joi_any))
     (collectionName (rebuilder [john_smith, julius_caesar] [''name''] Joi_any))
     = Some (people [john_smith, julius_caesar])
   \<and> collectionSchema (rebuilder [john_smith, julius_caesar] [''name''] Joi_any)
       (map stripLokiProperties (data (people [john_smith, julius_caesar])))
       = Inr [john_smith, julius_caesar]
   \<and> accepted (uniqueKeys (rebuilder [john_smith, julius_caesar] [''name''] Joi_any))
       [john_smith, julius_caesar]
   \<and> fst (rebuild (rebuilder [john_smith, julius_caesar] [''name''] Joi_any)) = None
   \<and> getCollection
        (db (snd (rebuild (rebuilder [john_smith, julius_caesar] [''name''] Joi_any))))
        ''TESTS''
       = Some \<lparr>name = ''TESTS'', uniqueNames = [''name''],
                data = [john_smith @ [(''$loki'', JNum 1), (''meta'', fresh_meta)],
                        julius_caesar @ [(''$loki'', JNum 2), (''meta'', fresh_meta)]],
                maxId = 2\<rparr>"
proof -
  let ?i = "rebuilder [john_smith, julius_caesar] [''name''] Joi_any"
  let ?c = "people [john_smith, julius_caesar]"
  have g: "getCollection (db ?i) (collectionName ?i) = Some ?c"
    by (simp add: rebuilder_def getCollection_def)
  have d: "map stripLokiProperties (data ?c) = [john_smith, julius_caesar]"
    by (simp add: people_two john_smith_def julius_caesar_def strip_stamp)
       (simp add: stripLokiProperties_def)
  have s: "collectionSchema ?i (map stripLokiProperties (data ?c))
             = Inr [john_smith, julius_caesar]"
    by (simp add: d) (simp add: rebuilder_def Joi_any_def)
  have a: "accepted (uniqueKeys ?i) [john_smith, julius_caesar]"
    by (simp add: rebuilder_def accepted_def john_smith_def julius_caesar_def stamp_def)
  have st: "stamp_all 0 [john_smith, julius_caesar] =
              [john_smith @ [(''$loki'', JNum 1), (''meta'', fresh_meta)],
               julius_caesar @ [(''$loki'', JNum 2), (''meta'', fresh_meta)]]"
    by (simp add: john_smith_def julius_caesar_def stamp_def)
  have "rebuild ?i =
          (None, ?i\<lparr>db := (db ?i)(collectionName ?i \<mapsto>
                      \<lparr>name = collectionName ?i, uniqueNames = uniqueKeys ?i,
                       data = stamp_all 0 [john_smith, julius_caesar],
                       maxId = int (length [john_smith, julius_caesar])\<rparr>)\<rparr>)"
    using rebuild_preserves_validated [OF g s a] by blast
  then have "fst (rebuild ?i) = None
     \<and> getCollection (db (snd (rebuild ?i))) ''TESTS''
       = Some \<lparr>name = ''TESTS'', uniqueNames = [''name''],
                data = stamp_all 0 [john_smith, julius_caesar], maxId = 2\<rparr>"
    by (simp add: getCollection_def rebuilder_def)
  then show ?thesis
    using g s a by (simp only: st)
qed

text \<open>
  C2 as stated fails twice. With the default schema the records john/smith and
  john/travolta pass, yet rebuilding against the unique field \<open>name\<close> throws the engine's
  duplicate-key error after the collection was removed, and the new collection holds one
  record, not two. With the collection schema of the tests, a record without
  \<open>isDisabled\<close> comes back with the schema's default \<open>isDisabled = false\<close>.
\<close>

theorem rebuild_preservation_counterexample:
  "collectionSchema (rebuilder [john_smith, john_travolta] [''name''] Joi_any)
     (map stripLokiProperties (data (people [john_smith, john_travolta])))
     = Inr [john_smith, john_travolta]
   \<and> fst (rebuild (rebuilder [john_smith, john_travolta] [''name''] Joi_any))
       = Some (EngineError ''Duplicate key'')
   \<and> getCollection
         (db (snd (rebuild (rebuilder [john_smith, john_travolta] [''name''] Joi_any))))
         ''TESTS''
       = Some \<lparr>name = ''TESTS'', uniqueNames = [''name''],
                data = [john_smith @ [(''$loki'', JNum 1), (''meta'', fresh_meta)]],
                maxId = 1\<rparr>
   \<and> length (data (people [john_smith, john_travolta])) = 2
   \<and> data (people [[(''slug'', JStr ''a'')]])
       = [[(''slug'', JStr ''a''), (''$loki'', JNum 1), (''meta'', fresh_meta)]]
   \<and> fst (rebuild (rebuilder [[(''slug'', JStr ''a'')]] [''slug''] test_collectionSchema))
       = None
   \<and> getCollection
         (db (snd (rebuild
                (rebuilder [[(''slug'', JStr ''a'')]] [''slug''] test_collectionSchema))))
         ''TESTS''
       = Some \<lparr>name = ''TESTS'', uniqueNames = [''slug''],
                data = [[(''slug'', JStr ''a''), (''isDisabled'', JBool False),
                         (''$loki'', JNum 1), (''meta'', fresh_meta)]],
                maxId = 1\<rparr>"
proof -
  let ?i = "rebuilder [john_smith, john_travolta] [''name''] Joi_any"
  let ?j = "rebuilder [[(''slug'', JStr ''a'')]] [''slug''] test_collectionSchema"
  have p: "people [john_smith, john_travolta] =
             \<lparr>name = ''TESTS'', uniqueNames = [],
              data = [stamp 1 john_smith, stamp 2 john_travolta], maxId = 2\<rparr>"
    by (rule people_two) (simp_all add: john_smith_def john_travolta_def)
  have d: "map stripLokiProperties (data (people [john_smith, john_travolta]))
             = [john_smith, john_travolta]"
    by (simp add: p strip_stamp) (simp add: stripLokiProperties_def john_smith_def
        john_travolta_def)
  have s: "collectionSchema ?i (map stripLokiProperties (data (people [john_smith, john_travolta])))
             = Inr [john_smith, john_travolta]"
    by (simp add: d) (simp add: rebuilder_def Joi_any_def)
  have ia: "coll_insert_all (new_collection ''TESTS'' [''name'']) [john_smith, john_travolta]
              = (Some (EngineError ''Duplicate key''),
                 \<lparr>name = ''TESTS'', uniqueNames = [''name''],
                  data = [stamp 1 john_smith], maxId = 1\<rparr>)"
    by (simp add: new_collection_def coll_insert_def clash_def Let_def john_smith_def
        john_travolta_def stamp_def)
  have r: "rebuild ?i =
             (Some (EngineError ''Duplicate key''),
              ?i\<lparr>db := [''TESTS'' \<mapsto> \<lparr>name = ''TESTS'', uniqueNames = [''name''],
                                      data = [stamp 1 john_smith], maxId = 1\<rparr>]\<rparr>)"
    using d ia
    by (simp add: rebuild_def create_def addCollection_def removeCollection_def
        getCollection_def rebuilder_def Joi_any_def)
  have q: "people [[(''slug'', JStr ''a'')]] =
             \<lparr>name = ''TESTS'', uniqueNames = [],
              data = [stamp 1 [(''slug'', JStr ''a'')]], maxId = 1\<rparr>"
    by (rule people_one) simp
  have e: "map stripLokiProperties (data (people [[(''slug'', JStr ''a'')]]))
             = [[(''slug'', JStr ''a'')]]"
    by (simp add: q strip_stamp) (simp add: stripLokiProperties_def)
  have t: "test_collectionSchema [[(''slug'', JStr ''a'')]]
             = Inr [[(''slug'', JStr ''a''), (''isDisabled'', JBool False)]]"
    by (simp add: test_collectionSchema_def test_objectSchema_def)
  have ib: "coll_insert_all (new_collection ''TESTS'' [''slug''])
              [[(''slug'', JStr ''a''), (''isDisabled'', JBool False)]]
            = (None, \<lparr>name = ''TESTS'', uniqueNames = [''slug''],
                  data = [stamp 1 [(''slug'', JStr ''a''), (''isDisabled'', JBool False)]],
                  maxId = 1\<rparr>)"
    by (simp add: new_collection_def coll_insert_def clash_def Let_def stamp_def)
  have r2: "rebuild ?j =
             (None,
              ?j\<lparr>db := [''TESTS'' \<mapsto> \<lparr>name = ''TESTS'', uniqueNames = [''slug''],
                  data = [stamp 1 [(''slug'', JStr ''a''), (''isDisabled'', JBool False)]],
                  maxId = 1\<rparr>]\<rparr>)"
    using e t ib
    by (simp add: rebuild_def create_def addCollection_def removeCollection_def
        getCollection_def rebuilder_def)
  have st: "stamp 1 john_smith = john_smith @ [(''$loki'', JNum 1), (''meta'', fresh_meta)]"
    "stamp 1 [(''slug'', JStr ''a'')]
       = [(''slug'', JStr ''a''), (''$loki'', JNum 1), (''meta'', fresh_meta)]"
    "stamp 1 [(''slug'', JStr ''a''), (''isDisabled'', JBool False)]
       = [(''slug'', JStr ''a''), (''isDisabled'', JBool False),
          (''$loki'', JNum 1), (''meta'', fresh_meta)]"
    by (simp_all add: stamp_def john_smith_def)
  show ?thesis
    using s by (simp add: r r2 p q getCollection_def st)
qed

section \<open>Storage fields on replace and patch\<close>

text \<open>
  C3 (storage-field protection), at a failing input. The record with storage ID 1 of the
  collection \<open>TESTS\<close> holds the engine's metadata; a patch that supplies
  \<open>meta = {injected: 1}\<close> succeeds and the stored record's \<open>meta\<close> has gained the
  key \<open>injected\<close>: \<open>_.defaultsDeep\<close> merges the patch's \<open>meta\<close> into the one
  picked from the existing record.
\<close>

theorem patch_meta_injection:
  "coll_get tests_collection (JNum 1) = Some rec_a
   \<and> map_of patch_meta ''$loki'' = Some (JNum 1)
   \<and> map_of rec_a ''meta'' = Some fresh_meta
   \<and> validateAndPatch Joi_any tests_collection patch_meta
       = Inr (injected_a, tests_collection\<lparr>data := [injected_a, rec_b]\<rparr>)
   \<and> map_of injected_a ''meta''
       = Some (JObj [(''revision'', JNum 0), (''created'', JNum 0), (''version'', JNum 0),
                     (''injected'', JNum 1)])
   \<and> map_of injected_a ''meta'' \<noteq> map_of rec_a ''meta''"
  by (simp add: test_defs patch_meta_def injected_a_def op_defs fresh_meta_def Joi_any_def)

text \<open>
  The sibling of the patch: a successful \<open>validateAndReplace\<close> returns and stores a
  record with the storage ID and the metadata of the existing record, whatever the input
  and the schema supplied for them.
\<close>

lemma replace_keeps_storage_fields:
  assumes "validateAndReplace sch c doc = Inr (r, c')"
  shows "\<exists>existing. getByID c (map_of doc ''$loki'') = Inr existing
           \<and> map_of r ''$loki'' = map_of existing ''$loki''
           \<and> (map_of existing ''meta'' \<noteq> None \<longrightarrow> map_of r ''meta'' = map_of existing ''meta'')"
proof -
  from validateAndReplace_Inr [OF assms] obtain existing validated
    where e: "getByID c (map_of doc ''$loki'') = Inr existing"
      and u: "coll_update c (Object_assign validated (pick existing [''$loki'', ''meta'']))
                = Inr (r, c')"
    by blast
  from coll_update_result [OF u]
  have r: "r = Object_assign validated (pick existing [''$loki'', ''meta''])" by simp
  from r have m: "map_of r k =
     (if k = ''meta'' \<and> map_of existing ''meta'' \<noteq> None then map_of existing ''meta''
      else if k = ''$loki'' \<and> map_of existing ''$loki'' \<noteq> None then map_of existing ''$loki''
      else map_of validated k)" for k
    by (simp only: map_of_Object_assign_pick)
  from getByID_Inr [OF e] have "map_of existing ''$loki'' \<noteq> None" by auto
  with m [of "''$loki''"] m [of "''meta''"]
  have "map_of r ''$loki'' = map_of existing ''$loki''
      \<and> (map_of existing ''meta'' \<noteq> None \<longrightarrow> map_of r ''meta'' = map_of existing ''meta'')"
    by simp
  with e show ?thesis by blast
qed

section \<open>The uniqueness invariant\<close>

lemma shares_sym: "shares f r1 r2 \<longleftrightarrow> shares f r2 r1"
  by (auto simp: shares_def split: option.splits)

lemma in_unique_values_iff:
  "(case map_of r f of None \<Rightarrow> False | Some v \<Rightarrow> v \<noteq> JNull \<and> v \<in> set (unique_values f rs))
     \<longleftrightarrow> (\<exists>r' \<in> set rs. shares f r r')"
  by (cases "map_of r f") (auto simp: set_unique_values shares_def split: option.splits)

lemma distinct_unique_values:
  "distinct (unique_values f rs) \<longleftrightarrow> sorted_wrt (\<lambda>a b. \<not> shares f a b) rs"
proof (induction rs)
  case Nil
  then show ?case by simp
next
  case (Cons r rs)
  show ?case
  proof (cases "map_of r f")
    case None
    then have "\<not> shares f r r'" for r' by (simp add: shares_def)
    with None Cons show ?thesis by simp
  next
    case (Some v)
    show ?thesis
    proof (cases "v = JNull")
      case True
      with Some have "\<not> shares f r r'" for r' by (simp add: shares_def split: option.splits)
      with Some True Cons show ?thesis by simp
    next
      case False
      with Some in_unique_values_iff [where r = r and f = f and rs = rs]
      have "v \<in> set (unique_values f rs) \<longleftrightarrow> (\<exists>r' \<in> set rs. shares f r r')" by simp
      with Some False Cons show ?thesis by auto
    qed
  qed
qed

lemma I1_iff: "I1 c \<longleftrightarrow> (\<forall>f \<in> set (uniqueNames c). distinct (unique_values f (data c)))"
proof -
  have "(\<forall>k < length rs. \<forall>j < length rs. k \<noteq> j \<longrightarrow> \<not> shares f (rs ! k) (rs ! j))
          \<longleftrightarrow> sorted_wrt (\<lambda>a b. \<not> shares f a b) rs" for f rs
  proof
    assume "\<forall>k < length rs. \<forall>j < length rs. k \<noteq> j \<longrightarrow> \<not> shares f (rs ! k) (rs ! j)"
    then show "sorted_wrt (\<lambda>a b. \<not> shares f a b) rs"
      by (simp add: sorted_wrt_iff_nth_less)
  next
    assume s: "sorted_wrt (\<lambda>a b. \<not> shares f a b) rs"
    show "\<forall>k < length rs. \<forall>j < length rs. k \<noteq> j \<longrightarrow> \<not> shares f (rs ! k) (rs ! j)"
    proof (intro allI impI)
      fix k j
      assume kj: "k < length rs" "j < length rs" "k \<noteq> j"
      then consider "k < j" | "j < k" by linarith
      then show "\<not> shares f (rs ! k) (rs ! j)"
      proof cases
        case 1
        with s kj show ?thesis by (simp add: sorted_wrt_iff_nth_less)
      next
        case 2
        with s kj have "\<not> shares f (rs ! j) (rs ! k)" by (simp add: sorted_wrt_iff_nth_less)
        then show ?thesis by (simp add: shares_sym)
      qed
    qed
  qed
  then show ?thesis
    by (simp add: I1_def distinct_unique_values)
qed

lemma unique_values_single:
  "unique_values f [d] = [] \<or>
   (\<exists>v. unique_values f [d] = [v] \<and> map_of d f = Some v \<and> v \<noteq> JNull)"
  by (cases "map_of d f") auto

lemma distinct_put:
  assumes "distinct (unique_values f (xs @ ys))"
    and "\<not> clash u d (xs @ ys)" and "f \<in> set u"
  shows "distinct (unique_values f (xs @ d # ys))"
proof -
  have split: "unique_values f (xs @ d # ys)
                 = unique_values f xs @ unique_values f [d] @ unique_values f ys"
    using unique_values_append [of f xs "[d] @ ys"] unique_values_append [of f "[d]" ys]
    by simp
  from assms(1) have base: "distinct (unique_values f xs @ unique_values f ys)"
    by (simp only: unique_values_append)
  from unique_values_single [of f d] show ?thesis
  proof
    assume "unique_values f [d] = []"
    with base show ?thesis by (simp only: split) simp
  next
    assume "\<exists>v. unique_values f [d] = [v] \<and> map_of d f = Some v \<and> v \<noteq> JNull"
    then obtain v where v: "unique_values f [d] = [v]" "map_of d f = Some v" "v \<noteq> JNull"
      by blast
    from assms(2,3) v have "v \<notin> set (unique_values f (xs @ ys))"
      by (auto simp: clash_iff)
    then have "v \<notin> set (unique_values f xs)" "v \<notin> set (unique_values f ys)"
      by (simp_all add: unique_values_append)
    with base v(1) show ?thesis by (simp only: split) auto
  qed
qed

lemma distinct_drop:
  assumes "distinct (unique_values f (xs @ d # ys))"
  shows "distinct (unique_values f (xs @ ys))"
proof -
  have "unique_values f (xs @ d # ys)
          = unique_values f xs @ unique_values f [d] @ unique_values f ys"
    using unique_values_append [of f xs "[d] @ ys"] unique_values_append [of f "[d]" ys]
    by simp
  with assms have "distinct (unique_values f xs @ unique_values f [d] @ unique_values f ys)"
    by simp
  then have "distinct (unique_values f xs @ unique_values f ys)"
    by auto
  then show ?thesis by (simp only: unique_values_append)
qed

lemma coll_insert_I1:
  assumes "coll_insert c d = Inr (r, c')" and "I1 c"
  shows "I1 c' \<and> uniqueNames c' = uniqueNames c"
proof -
  from coll_insert_result [OF assms(1)]
  have c': "c' = c\<lparr>data := data c @ [r], maxId := maxId c + 1\<rparr>"
    and nc: "\<not> clash (uniqueNames c) r (data c)" by blast+
  have "distinct (unique_values f (data c @ [r]))" if "f \<in> set (uniqueNames c)" for f
    using distinct_put [where f = f and xs = "data c" and ys = "[]" and u = "uniqueNames c"
        and d = r] assms(2) nc that
    by (simp add: I1_iff)
  with c' show ?thesis by (simp add: I1_iff)
qed

lemma coll_update_I1:
  assumes "coll_update c d = Inr (r, c')" and "I1 c"
  shows "I1 c' \<and> uniqueNames c' = uniqueNames c"
proof -
  from coll_update_result [OF assms(1)] obtain p
    where p: "p < length (data c)" and c': "c' = c\<lparr>data := (data c)[p := d]\<rparr>"
      and nc: "\<not> clash (uniqueNames c) d (take p (data c) @ drop (Suc p) (data c))"
    by blast
  from p have old: "data c = take p (data c) @ data c ! p # drop (Suc p) (data c)"
    by (rule id_take_nth_drop)
  from p have new: "(data c)[p := d] = take p (data c) @ d # drop (Suc p) (data c)"
    by (rule upd_conv_take_nth_drop)
  have "distinct (unique_values f ((data c)[p := d]))" if f: "f \<in> set (uniqueNames c)" for f
  proof -
    from assms(2) f have "distinct (unique_values f (data c))" by (simp add: I1_iff)
    with old have "distinct (unique_values f
        (take p (data c) @ data c ! p # drop (Suc p) (data c)))" by simp
    then have "distinct (unique_values f (take p (data c) @ drop (Suc p) (data c)))"
      by (rule distinct_drop)
    from distinct_put [OF this nc f] new show ?thesis by simp
  qed
  with c' show ?thesis by (simp add: I1_iff)
qed

lemma coll_remove_I1:
  assumes "coll_remove c d = Inr c'" and "I1 c"
  shows "I1 c' \<and> uniqueNames c' = uniqueNames c"
proof -
  from assms(1) obtain p
    where p: "p < length (data c)"
      and c': "c' = c\<lparr>data := take p (data c) @ drop (Suc p) (data c)\<rparr>"
    by (auto simp: coll_remove_def split: option.splits dest: position_Some)
  from p have old: "data c = take p (data c) @ data c ! p # drop (Suc p) (data c)"
    by (rule id_take_nth_drop)
  have "distinct (unique_values f (take p (data c) @ drop (Suc p) (data c)))"
    if f: "f \<in> set (uniqueNames c)" for f
  proof -
    from assms(2) f have "distinct (unique_values f (data c))" by (simp add: I1_iff)
    with old have "distinct (unique_values f
        (take p (data c) @ data c ! p # drop (Suc p) (data c)))" by simp
    then show ?thesis by (rule distinct_drop)
  qed
  with c' show ?thesis by (simp add: I1_iff)
qed

text \<open>
  A call of \<open>validateAndPatch\<close> that throws leaves the collection as it was, or
  leaves one live record with another \<open>meta\<close> and every other field as before.
\<close>

lemma position_find:
  "find (\<lambda>r. map_of r ''$loki'' = Some ident) rs = Some e
     \<Longrightarrow> \<exists>p. position ident rs = Some p \<and> rs ! p = e"
  by (induction rs) (auto split: if_splits)

lemma map_of_meta_written:
  "f \<noteq> ''meta'' \<Longrightarrow> map_of (meta_written e d) f = map_of e f"
  by (simp add: meta_written_def update_conv' split: option.splits)

lemma validateAndPatch_thrown_cases:
  obtains (same) "validateAndPatch_thrown c doc = c"
  | (written) p r where "p < length (data c)"
      and "\<forall>f. f \<noteq> ''meta'' \<longrightarrow> map_of r f = map_of (data c ! p) f"
      and "validateAndPatch_thrown c doc = c\<lparr>data := (data c)[p := r]\<rparr>"
proof (cases "getByID c (map_of doc ''$loki'')")
  case (Inl e)
  with same show ?thesis by (simp add: validateAndPatch_thrown_def)
next
  case g: (Inr existing)
  show ?thesis
  proof (cases "validateUniqueProperties c doc (Some existing)")
    case (Inl e)
    with g same show ?thesis by (simp add: validateAndPatch_thrown_def)
  next
    case u: (Inr ok)
    show ?thesis
    proof (cases "map_of doc ''$loki''")
      case None
      with g u same show ?thesis by (simp add: validateAndPatch_thrown_def)
    next
      case (Some ident)
      from g Some have "coll_get c ident = Some existing"
        by (auto simp: getByID_def split: if_splits option.splits)
      then have "\<exists>p. position ident (data c) = Some p \<and> data c ! p = existing"
        unfolding coll_get_def by (rule position_find)
      then obtain p where p: "position ident (data c) = Some p"
        and at: "data c ! p = existing" by auto
      from position_Some [OF p] have lt: "p < length (data c)" by simp
      from g u Some p
      have st: "validateAndPatch_thrown c doc
                  = c\<lparr>data := (data c)[p := meta_written existing doc]\<rparr>"
        by (simp add: validateAndPatch_thrown_def live_update_def)
      from at have "\<forall>f. f \<noteq> ''meta''
          \<longrightarrow> map_of (meta_written existing doc) f = map_of (data c ! p) f"
        by (simp add: map_of_meta_written)
      from written [OF lt this st] show ?thesis .
    qed
  qed
qed

text \<open>
  Every operation leaves the collection as it is, or is one successful call of the
  engine's \<open>insert\<close>, \<open>update\<close> or \<open>remove\<close>, or is a patch that threw after its
  merge.
\<close>

lemma apply_operation_cases:
  obtains (same) "apply_operation sch c op = c"
  | (inserted) d r where "coll_insert c d = Inr (r, apply_operation sch c op)"
  | (updated) d r where "coll_update c d = Inr (r, apply_operation sch c op)"
  | (removed) d where "coll_remove c d = Inr (apply_operation sch c op)"
  | (written) p r where "p < length (data c)"
      and "\<forall>f. f \<noteq> ''meta'' \<longrightarrow> map_of r f = map_of (data c ! p) f"
      and "apply_operation sch c op = c\<lparr>data := (data c)[p := r]\<rparr>"
proof (cases op)
  case (ValidateAndInsert doc)
  show ?thesis
  proof (cases "validateAndInsert sch c doc")
    case (Inl e)
    with ValidateAndInsert same show ?thesis by simp
  next
    case (Inr rc)
    obtain r c' where rc: "rc = (r, c')" by (cases rc)
    from validateAndInsert_Inr [of sch c doc r c'] Inr rc
    obtain validated where "coll_insert c validated = Inr (r, c')" by auto
    with ValidateAndInsert Inr rc inserted show ?thesis by simp
  qed
next
  case (ValidateAndReplace doc)
  show ?thesis
  proof (cases "validateAndReplace sch c doc")
    case (Inl e)
    with ValidateAndReplace same show ?thesis by simp
  next
    case (Inr rc)
    obtain r c' where rc: "rc = (r, c')" by (cases rc)
    from validateAndReplace_Inr [of sch c doc r c'] Inr rc
    obtain d where "coll_update c d = Inr (r, c')" by auto
    with ValidateAndReplace Inr rc updated show ?thesis by simp
  qed
next
  case (ValidateAndPatch doc)
  show ?thesis
  proof (cases "validateAndPatch sch c doc")
    case (Inl e)
    with ValidateAndPatch
    have ap: "apply_operation sch c op = validateAndPatch_thrown c doc" by simp
    show ?thesis
    proof (cases rule: validateAndPatch_thrown_cases [of c doc])
      case same
      with ap have "apply_operation sch c op = c" by simp
      then show ?thesis by (rule that(1))
    next
      case (written p r)
      from written(3) ap have "apply_operation sch c op = c\<lparr>data := (data c)[p := r]\<rparr>"
        by simp
      from that(5) [OF written(1) written(2) this] show ?thesis .
    qed
  next
    case (Inr rc)
    obtain r c' where rc: "rc = (r, c')" by (cases rc)
    from validateAndPatch_Inr [of sch c doc r c'] Inr rc
    obtain d where "coll_update c d = Inr (r, c')" by auto
    with ValidateAndPatch Inr rc updated show ?thesis by simp
  qed
next
  case (Upsert doc)
  show ?thesis
  proof (cases "upsert c doc")
    case (Inl e)
    with Upsert same show ?thesis by simp
  next
    case (Inr rc)
    obtain r c' where rc: "rc = (r, c')" by (cases rc)
    show ?thesis
    proof (cases "truthy (map_of doc ''$loki'')
        \<and> coll_get c (the (map_of doc ''$loki'')) \<noteq> None")
      case True
      with Inr rc have "coll_update c doc = Inr (r, c')" by (simp add: upsert_def)
      with Upsert Inr rc updated show ?thesis by simp
    next
      case False
      with Inr rc have "coll_insert c (stripLokiProperties doc) = Inr (r, c')"
        by (auto simp: upsert_def Let_def)
      with Upsert Inr rc inserted show ?thesis by simp
    qed
  qed
next
  case (RemoveByID ident)
  show ?thesis
  proof (cases "removeByID c ident")
    case (Inl e)
    with RemoveByID same show ?thesis by simp
  next
    case (Inr rc)
    obtain r c' where rc: "rc = (r, c')" by (cases rc)
    with Inr obtain doc where "coll_remove c doc = Inr c'"
      by (auto simp: removeByID_def split: sum.splits)
    with RemoveByID Inr rc removed show ?thesis by simp
  qed
qed

text \<open>
  A record that changes at no unique field leaves the values at the unique fields as
  they were. That is the case of the patch that threw, as long as \<open>meta\<close> is not a
  unique field.
\<close>

lemma unique_values_list_update:
  "p < length rs \<Longrightarrow> map_of r f = map_of (rs ! p) f
     \<Longrightarrow> unique_values f (rs[p := r]) = unique_values f rs"
proof (induction rs arbitrary: p)
  case Nil
  then show ?case by simp
next
  case (Cons x xs)
  show ?case
  proof (cases p)
    case 0
    with Cons.prems show ?thesis by simp
  next
    case (Suc q)
    with Cons.prems Cons.IH [of q]
    have "unique_values f (xs[q := r]) = unique_values f xs" by simp
    with Suc show ?thesis by (simp split: option.splits)
  qed
qed

lemma written_I1:
  assumes "p < length (data c)"
    and "\<forall>f. f \<noteq> ''meta'' \<longrightarrow> map_of r f = map_of (data c ! p) f"
    and "''meta'' \<notin> set (uniqueNames c)" and "I1 c"
  shows "I1 (c\<lparr>data := (data c)[p := r]\<rparr>)"
proof -
  have "distinct (unique_values f ((data c)[p := r]))" if f: "f \<in> set (uniqueNames c)" for f
  proof -
    from f assms(3) have "f \<noteq> ''meta''" by auto
    with assms(2) have "map_of r f = map_of (data c ! p) f" by simp
    from unique_values_list_update [OF assms(1) this] assms(4) f
    show ?thesis by (simp add: I1_iff)
  qed
  then show ?thesis by (simp add: I1_iff)
qed

lemma apply_operation_I1:
  assumes "''meta'' \<notin> set (uniqueNames c)" and "I1 c"
  shows "I1 (apply_operation sch c op) \<and> uniqueNames (apply_operation sch c op) = uniqueNames c"
proof (cases rule: apply_operation_cases [of sch c op])
  case same
  with assms show ?thesis by simp
next
  case (inserted d r)
  from coll_insert_I1 [OF this assms(2)] show ?thesis .
next
  case (updated d r)
  from coll_update_I1 [OF this assms(2)] show ?thesis .
next
  case (removed d)
  from coll_remove_I1 [OF this assms(2)] show ?thesis .
next
  case (written p r)
  from written_I1 [OF written(1) written(2) assms] written(3) show ?thesis by simp
qed

text \<open>
  Where \<open>meta\<close> is not a unique field, invariant I1 holds after every run that starts
  from a collection where it holds, whether the calls succeed or throw, and the unique
  field names stay the same. What keeps it is the engine: \<open>insert\<close> and \<open>update\<close>
  refuse a record that would share a value, and \<open>remove\<close> only drops a record.
\<close>

lemma run_I1:
  assumes "''meta'' \<notin> set (uniqueNames c)" and "I1 c"
  shows "I1 (run sch c ops) \<and> uniqueNames (run sch c ops) = uniqueNames c"
  using assms unfolding run_def
proof (induction ops arbitrary: c)
  case Nil
  then show ?case by simp
next
  case (Cons op ops)
  from apply_operation_I1 [OF Cons.prems, of sch op]
  have 1: "I1 (apply_operation sch c op)"
    and 2: "uniqueNames (apply_operation sch c op) = uniqueNames c"
    by simp_all
  from Cons.prems(1) 2 have "''meta'' \<notin> set (uniqueNames (apply_operation sch c op))"
    by simp
  from Cons.IH [OF this 1] 2 show ?case by simp
qed

lemma new_collection_I1: "I1 (new_collection n u)"
  by (simp add: I1_def new_collection_def)

lemma tests_collection_run_I1:
  "I1 (run test_objectSchema tests_collection
         [ValidateAndInsert doc_c, Upsert upsert_duplicate, RemoveByID (Some (JNum 1))])
   \<and> data (run test_objectSchema tests_collection
         [ValidateAndInsert doc_c, Upsert upsert_duplicate, RemoveByID (Some (JNum 1))])
       = [rec_b, inserted_c]"
proof -
  let ?ops = "[ValidateAndInsert doc_c, Upsert upsert_duplicate, RemoveByID (Some (JNum 1))]"
  let ?c1 = "tests_collection\<lparr>data := [rec_a, rec_b, inserted_c], maxId := 3\<rparr>"
  have h: "I1 tests_collection"
    by (simp add: I1_iff test_defs doc_c_def inserted_c_def upsert_duplicate_def)
  have m: "''meta'' \<notin> set (uniqueNames tests_collection)"
    by (simp add: tests_collection_def)
  have i: "validateAndInsert test_objectSchema tests_collection doc_c = Inr (inserted_c, ?c1)"
    by (simp add: test_defs doc_c_def inserted_c_def upsert_duplicate_def op_defs)
  have u: "upsert ?c1 upsert_duplicate = Inl (EngineError ''Duplicate key'')"
    by (simp add: test_defs doc_c_def inserted_c_def upsert_duplicate_def op_defs upsert_def)
  have r: "removeByID ?c1 (Some (JNum 1))
             = Inr (rec_a, ?c1\<lparr>data := [rec_b, inserted_c]\<rparr>)"
    by (simp add: test_defs doc_c_def inserted_c_def upsert_duplicate_def op_defs removeByID_def)
  have d: "run test_objectSchema tests_collection ?ops = ?c1\<lparr>data := [rec_b, inserted_c]\<rparr>"
    by (simp add: run_def i u r)
  from run_I1 [OF m h, of test_objectSchema ?ops] d show ?thesis by simp
qed


text \<open>In the words of the invariant: I1 holds before the last call and not after it.\<close>

lemma metas_collection_I1:
  "I1 metas_collection \<and> \<not> I1 (metas_collection\<lparr>data := [marked_one, marked_two]\<rparr>)"
  by (simp add: I1_iff metas_collection_def marked_one_def marked_two_def stored_two_def
      marked_meta_def fresh_meta_def)

text \<open>
  The storage IDs stay the engine's: a fresh collection has them, and every operation
  keeps them.
\<close>

lemma valid_id_iff:
  "valid_id m r \<longleftrightarrow> (\<exists>n. map_of r ''$loki'' = Some (JNum n) \<and> 1 \<le> n \<and> n \<le> m)"
  by (auto simp: valid_id_def split: option.splits json.splits)

lemma engine_ids_new: "engine_ids (new_collection n u)"
  by (simp add: engine_ids_def new_collection_def)

lemma coll_insert_engine_ids:
  assumes "coll_insert c d = Inr (r, c')" and "engine_ids c"
  shows "engine_ids c'"
proof -
  from coll_insert_result [OF assms(1)]
  have r: "r = stamp (maxId c + 1) d"
    and c': "c' = c\<lparr>data := data c @ [r], maxId := maxId c + 1\<rparr>" by blast+
  from assms(2) have m: "0 \<le> maxId c" and old: "\<forall>x \<in> set (data c). valid_id (maxId c) x"
    by (simp_all add: engine_ids_def list_all_iff)
  from r m have "valid_id (maxId c + 1) r"
    by (simp add: valid_id_iff map_of_stamp)
  moreover from old have "\<forall>x \<in> set (data c). valid_id (maxId c + 1) x"
    by (fastforce simp: valid_id_iff)
  ultimately show ?thesis
    using m c' by (simp add: engine_ids_def list_all_iff)
qed

lemma coll_update_engine_ids:
  assumes "coll_update c d = Inr (r, c')" and "engine_ids c"
  shows "engine_ids c'"
proof -
  from assms(1) obtain ident p
    where d: "map_of d ''$loki'' = Some ident" and p: "position ident (data c) = Some p"
      and c': "c' = c\<lparr>data := (data c)[p := d]\<rparr>"
    by (auto simp: coll_update_def split: option.splits if_splits)
  from assms(2) have m: "0 \<le> maxId c" and old: "\<forall>x \<in> set (data c). valid_id (maxId c) x"
    by (simp_all add: engine_ids_def list_all_iff)
  from position_Some [OF p] have lt: "p < length (data c)"
    and at: "map_of (data c ! p) ''$loki'' = Some ident" by simp_all
  from lt old have "valid_id (maxId c) (data c ! p)" by simp
  with at d have new: "valid_id (maxId c) d"
    by (simp add: valid_id_iff)
  have "valid_id (maxId c) x" if "x \<in> set ((data c)[p := d])" for x
  proof -
    from that set_update_subset_insert [of "data c" p d]
    have "x = d \<or> x \<in> set (data c)" by auto
    with new old show ?thesis by blast
  qed
  with m c' show ?thesis
    by (simp add: engine_ids_def list_all_iff)
qed

lemma coll_remove_engine_ids:
  assumes "coll_remove c d = Inr c'" and "engine_ids c"
  shows "engine_ids c'"
proof -
  from assms(1) obtain p
    where c': "c' = c\<lparr>data := take p (data c) @ drop (Suc p) (data c)\<rparr>"
    by (auto simp: coll_remove_def split: option.splits)
  from assms(2) have m: "0 \<le> maxId c" and old: "\<forall>x \<in> set (data c). valid_id (maxId c) x"
    by (simp_all add: engine_ids_def list_all_iff)
  have "valid_id (maxId c) x" if "x \<in> set (take p (data c) @ drop (Suc p) (data c))" for x
  proof -
    from that have "x \<in> set (data c)"
      by (auto dest: in_set_takeD in_set_dropD)
    with old show ?thesis by blast
  qed
  with m c' show ?thesis
    by (simp add: engine_ids_def list_all_iff)
qed

lemma written_engine_ids:
  assumes "p < length (data c)"
    and "map_of r ''$loki'' = map_of (data c ! p) ''$loki''"
    and "engine_ids c"
  shows "engine_ids (c\<lparr>data := (data c)[p := r]\<rparr>)"
proof -
  from assms(3) have m: "0 \<le> maxId c" and old: "\<forall>x \<in> set (data c). valid_id (maxId c) x"
    by (simp_all add: engine_ids_def list_all_iff)
  from assms(1) old have "valid_id (maxId c) (data c ! p)" by simp
  with assms(2) have new: "valid_id (maxId c) r"
    by (simp add: valid_id_def)
  have "valid_id (maxId c) x" if "x \<in> set ((data c)[p := r])" for x
  proof -
    from that set_update_subset_insert [of "data c" p r]
    have "x = r \<or> x \<in> set (data c)" by auto
    with new old show ?thesis by blast
  qed
  with m show ?thesis
    by (simp add: engine_ids_def list_all_iff)
qed

lemma run_engine_ids: "engine_ids c \<Longrightarrow> engine_ids (run sch c ops)"
  unfolding run_def
proof (induction ops arbitrary: c)
  case Nil
  then show ?case by simp
next
  case (Cons op ops)
  have "engine_ids (apply_operation sch c op)"
  proof (cases rule: apply_operation_cases [of sch c op])
    case same
    with Cons.prems show ?thesis by simp
  next
    case (inserted d r)
    from coll_insert_engine_ids [OF this Cons.prems] show ?thesis .
  next
    case (updated d r)
    from coll_update_engine_ids [OF this Cons.prems] show ?thesis .
  next
    case (removed d)
    from coll_remove_engine_ids [OF this Cons.prems] show ?thesis .
  next
    case (written p r)
    from written_engine_ids [OF written(1) _ Cons.prems, of r] written(2,3)
    show ?thesis by simp
  qed
  from Cons.IH [OF this] show ?case by simp
qed

section \<open>The uniqueness check\<close>

text \<open>
  C5 (when \<open>validateUniqueProperties\<close> throws), at a failing input. A live record of
  \<open>UNIQUES\<close> has \<open>u1 = 0\<close>. The document \<open>{u1: 0}\<close>, checked without an
  existing record, passes: the check skips a value that is falsy. The engine then refuses
  the insert with its own error. The value 2 is refused as the claim says.
\<close>

theorem unique_check_skips_zero:
  "coll_by uniques_collection ''u1'' (JNum 0) = Inr (Some zero_rec)
   \<and> validateUniqueProperties uniques_collection [(''u1'', JNum 0)] None = Inr True
   \<and> validateAndInsert Joi_any uniques_collection [(''u1'', JNum 0)]
       = Inl (EngineError ''Duplicate key'')
   \<and> validateUniqueProperties uniques_collection [(''u1'', JNum 2)] None
       = Inl (ValidationError (DuplicateKeyMessage ''u1'' (JNum 2)) (KeyValue ''u1'' (JNum 2)))"
  by (simp add: test_defs zero_rec_def two_rec_def uniques_collection_def op_defs Joi_any_def)

text \<open>
  The check in general: it throws exactly when some unique field is offending, and what
  it throws is a \<open>ValidationError\<close> that names such a field and the document's value.
\<close>

lemma uniqueLoop_step:
  assumes "key \<in> set (uniqueNames c)"
  shows "uniqueLoop c (key # keys) doc existing =
           (if offending c doc existing key
            then Inl (ValidationError (DuplicateKeyMessage key (the (map_of doc key)))
                        (KeyValue key (the (map_of doc key))))
            else uniqueLoop c keys doc existing)"
proof (cases "truthy (map_of doc key)")
  case False
  then show ?thesis by (simp add: offending_def Let_def)
next
  case True
  then obtain v where v: "map_of doc key = Some v" by (cases "map_of doc key") auto
  define same where
    "same = (case existing of None \<Rightarrow> False
             | Some e \<Rightarrow> truthy (map_of e key) \<and> map_of doc key = map_of e key)"
  have same: "same \<longleftrightarrow>
      \<not> (case existing of None \<Rightarrow> True | Some e \<Rightarrow> map_of e key \<noteq> map_of doc key)"
    using True by (auto simp: same_def split: option.splits)
  have step: "uniqueLoop c (key # keys) doc existing =
      (if \<not> same
       then (case find (\<lambda>r. map_of r key = Some v) (data c) of
               Some other \<Rightarrow> Inl (ValidationError (DuplicateKeyMessage key v) (KeyValue key v))
             | None \<Rightarrow> uniqueLoop c keys doc existing)
       else uniqueLoop c keys doc existing)"
    using True assms v
    by (cases existing; cases "find (\<lambda>r. map_of r key = Some v) (data c)")
       (simp_all add: Let_def coll_by_def same_def)
  show ?thesis
  proof (cases "\<exists>r \<in> set (data c). map_of r key = Some v")
    case False
    then have "find (\<lambda>r. map_of r key = Some v) (data c) = None"
      by (auto simp: find_None_iff)
    with False show ?thesis
      by (simp add: step offending_def v del: uniqueLoop.simps)
  next
    case yes: True
    then have "find (\<lambda>r. map_of r key = Some v) (data c) \<noteq> None"
      by (auto simp: find_None_iff)
    then obtain other where "find (\<lambda>r. map_of r key = Some v) (data c) = Some other"
      by blast
    with yes True same show ?thesis
      by (simp add: step offending_def v del: uniqueLoop.simps)
  qed
qed

lemma uniqueLoop_throws_iff:
  assumes "set keys \<subseteq> set (uniqueNames c)"
  shows "(\<exists>e. uniqueLoop c keys doc existing = Inl e)
           \<longleftrightarrow> (\<exists>key \<in> set keys. offending c doc existing key)"
    and "uniqueLoop c keys doc existing = Inl e \<Longrightarrow>
           \<exists>key \<in> set keys. offending c doc existing key
             \<and> e = ValidationError (DuplicateKeyMessage key (the (map_of doc key)))
                      (KeyValue key (the (map_of doc key)))"
  using assms
proof (induction keys)
  case Nil
  case 1 show ?case by simp
  case 2 then show ?case by simp
next
  case (Cons key keys)
  case 1
  then have k: "key \<in> set (uniqueNames c)" and ks: "set keys \<subseteq> set (uniqueNames c)"
    by simp_all
  from Cons.IH(1) [OF ks] show ?case
    by (simp only: uniqueLoop_step [OF k]) auto
  case 2
  then have k: "key \<in> set (uniqueNames c)" and ks: "set keys \<subseteq> set (uniqueNames c)"
    by simp_all
  from 2(1) Cons.IH(2) [OF _ ks] show ?case
    by (simp only: uniqueLoop_step [OF k]) (auto split: if_splits)
qed

lemma validateUniqueProperties_throws_iff:
  "(\<exists>e. validateUniqueProperties c doc existing = Inl e)
     \<longleftrightarrow> (\<exists>key \<in> set (uniqueNames c). offending c doc existing key)"
  unfolding validateUniqueProperties_def
  by (rule uniqueLoop_throws_iff(1)) simp

section \<open>The merge of a patch\<close>








section \<open>Validated insert\<close>

text \<open>
  C7 (insert validation order). \<open>validateAndInsert\<close> consults the record schema first:
  when the schema rejects the input, the result is the schema's \<open>ValidationError\<close>,
  whatever a duplicate-key check would have said; and when the call succeeds, the schema
  accepted the input, the uniqueness check passed, and the record handed to the engine's
  \<open>insert\<close> is the schema-validated value.
\<close>

theorem validateAndInsert_order:
  "(\<forall>details. sch doc = Inl details \<longrightarrow>
      validateAndInsert sch c doc = Inl (ValidationError NoMessage (SchemaDetails details)))
   \<and> (\<forall>r c'. validateAndInsert sch c doc = Inr (r, c') \<longrightarrow>
         (\<exists>validated. sch doc = Inr validated
            \<and> validateUniqueProperties c doc None = Inr True
            \<and> coll_insert c validated = Inr (r, c')))"
proof (intro conjI allI impI)
  fix details
  assume "sch doc = Inl details"
  then show "validateAndInsert sch c doc = Inl (ValidationError NoMessage (SchemaDetails details))"
    by (simp add: validateAndInsert_def validateObjectSchema_def)
next
  fix r c'
  assume "validateAndInsert sch c doc = Inr (r, c')"
  then show "\<exists>validated. sch doc = Inr validated
      \<and> validateUniqueProperties c doc None = Inr True
      \<and> coll_insert c validated = Inr (r, c')"
    by (rule validateAndInsert_Inr)
qed

theorem validateAndInsert_order_witness:
  "test_objectSchema doc_bad_duplicate = Inl ''content''
   \<and> coll_by tests_collection ''slug'' (JStr ''a'') = Inr (Some rec_a)
   \<and> validateAndInsert test_objectSchema tests_collection doc_bad_duplicate
       = Inl (ValidationError NoMessage (SchemaDetails ''content''))
   \<and> validateAndInsert test_objectSchema tests_collection doc_c
       = Inr (doc_c @ [(''isDisabled'', JBool False), (''$loki'', JNum 3), (''meta'', fresh_meta)],
              tests_collection
                \<lparr>data := [rec_a, rec_b,
                           doc_c @ [(''isDisabled'', JBool False), (''$loki'', JNum 3),
                                    (''meta'', fresh_meta)]],
                 maxId := 3\<rparr>)
   \<and> (\<exists>validated. test_objectSchema doc_c = Inr validated
        \<and> map_of validated ''isDisabled'' = Some (JBool False)
        \<and> coll_insert tests_collection validated
            = Inr (doc_c @ [(''isDisabled'', JBool False), (''$loki'', JNum 3),
                            (''meta'', fresh_meta)],
                   tests_collection
                     \<lparr>data := [rec_a, rec_b,
                                doc_c @ [(''isDisabled'', JBool False), (''$loki'', JNum 3),
                                         (''meta'', fresh_meta)]],
                      maxId := 3\<rparr>))"
proof -
  let ?stored = "doc_c @ [(''isDisabled'', JBool False), (''$loki'', JNum 3), (''meta'', fresh_meta)]"
  let ?c' = "tests_collection\<lparr>data := [rec_a, rec_b, ?stored], maxId := 3\<rparr>"
  have bad: "test_objectSchema doc_bad_duplicate = Inl ''content''"
    by (simp add: test_defs doc_c_def doc_bad_duplicate_def)
  have dup: "coll_by tests_collection ''slug'' (JStr ''a'') = Inr (Some rec_a)"
    by (simp add: test_defs doc_c_def doc_bad_duplicate_def coll_by_def)
  have good: "validateAndInsert test_objectSchema tests_collection doc_c = Inr (?stored, ?c')"
    by (simp add: test_defs doc_c_def doc_bad_duplicate_def op_defs)
  have v: "test_objectSchema doc_c = Inr (doc_c @ [(''isDisabled'', JBool False)])"
    by (simp add: test_defs doc_c_def doc_bad_duplicate_def)
  from validateAndInsert_order [of test_objectSchema doc_bad_duplicate tests_collection] bad
  have 1: "validateAndInsert test_objectSchema tests_collection doc_bad_duplicate
             = Inl (ValidationError NoMessage (SchemaDetails ''content''))"
    by blast
  from validateAndInsert_order [of test_objectSchema doc_c tests_collection] good
  obtain validated where 2: "test_objectSchema doc_c = Inr validated"
      "coll_insert tests_collection validated = Inr (?stored, ?c')"
    by blast
  from 2(1) v have "map_of validated ''isDisabled'' = Some (JBool False)"
    by (auto simp: doc_c_def)
  with bad dup good 1 2 show ?thesis by blast
qed

section \<open>Upsert\<close>

lemma engine_ids_get:
  assumes "engine_ids c" and "coll_get c ident = Some e"
  shows "\<exists>n. ident = JNum n \<and> 1 \<le> n \<and> n \<le> maxId c"
proof -
  from assms(2) have l: "map_of e ''$loki'' = Some ident"
    by (auto simp: coll_get_def find_Some_iff)
  from assms(2) have "e \<in> set (data c)"
    by (auto simp: coll_get_def find_Some_iff)
  with assms(1) have "valid_id (maxId c) e"
    by (simp add: engine_ids_def list_all_iff)
  with l show ?thesis
    by (simp add: valid_id_iff)
qed

lemma engine_ids_fresh:
  assumes "engine_ids c"
  shows "coll_get c (JNum (maxId c + 1)) = None"
proof (cases "coll_get c (JNum (maxId c + 1))")
  case None
  then show ?thesis .
next
  case (Some e)
  from engine_ids_get [OF assms Some] show ?thesis by simp
qed

text \<open>
  C8 (upsert dichotomy). In a collection whose storage IDs are the engine's, a document
  whose \<open>$loki\<close> resolves to a live record goes to the engine's \<open>update\<close> as it is.
  A document whose \<open>$loki\<close> is absent or resolves to no live record is stripped of
  \<open>$loki\<close> and \<open>meta\<close> and inserted: on success the new record carries the next
  storage ID of the engine, which no live record has, and fresh metadata, whatever the
  document supplied for them, keeps every other field of the document, and is appended
  to the live records. \<open>upsert\<close> takes no schema and never fails with a
  \<open>ValidationError\<close>.
\<close>

theorem upsert_dichotomy:
  "(\<forall>ident existing.
      engine_ids c \<and> map_of doc ''$loki'' = Some ident
      \<and> coll_get c ident = Some existing \<longrightarrow> upsert c doc = coll_update c doc)
   \<and> (map_of doc ''$loki'' = None
        \<or> (\<exists>ident. map_of doc ''$loki'' = Some ident \<and> coll_get c ident = None) \<longrightarrow>
        upsert c doc = coll_insert c (stripLokiProperties doc)
      \<and> (\<forall>r c'. upsert c doc = Inr (r, c') \<longrightarrow>
            map_of r ''$loki'' = Some (JNum (maxId c + 1))
          \<and> (engine_ids c \<longrightarrow> coll_get c (JNum (maxId c + 1)) = None)
          \<and> map_of r ''meta'' = Some fresh_meta
          \<and> (\<forall>k. k \<noteq> ''$loki'' \<and> k \<noteq> ''meta'' \<longrightarrow> map_of r k = map_of doc k)
          \<and> data c' = data c @ [r] \<and> maxId c' = maxId c + 1))
   \<and> (\<forall>m p. upsert c doc \<noteq> Inl (ValidationError m p))"
proof (intro conjI allI impI)
  fix ident existing
  assume a: "engine_ids c \<and> map_of doc ''$loki'' = Some ident
      \<and> coll_get c ident = Some existing"
  then obtain n where "ident = JNum n" "1 \<le> n"
    using engine_ids_get [of c ident existing] by blast
  with a show "upsert c doc = coll_update c doc"
    by (simp add: upsert_def)
next
  assume a: "map_of doc ''$loki'' = None
        \<or> (\<exists>ident. map_of doc ''$loki'' = Some ident \<and> coll_get c ident = None)"
  then show i: "upsert c doc = coll_insert c (stripLokiProperties doc)"
    by (auto simp: upsert_def)
  fix r c'
  assume "upsert c doc = Inr (r, c')"
  with i have "coll_insert c (stripLokiProperties doc) = Inr (r, c')" by simp
  from coll_insert_result [OF this]
  have r: "r = stamp (maxId c + 1) (stripLokiProperties doc)"
    and c': "c' = c\<lparr>data := data c @ [r], maxId := maxId c + 1\<rparr>"
    by blast+
  from r show "map_of r ''$loki'' = Some (JNum (maxId c + 1))"
    by (simp add: map_of_stamp)
  from r show "map_of r ''meta'' = Some fresh_meta"
    by (simp add: map_of_stamp)
  from c' show "data c' = data c @ [r]" by simp
  from c' show "maxId c' = maxId c + 1" by simp
  show "coll_get c (JNum (maxId c + 1)) = None" if "engine_ids c"
    using that by (rule engine_ids_fresh)
  fix k
  assume "k \<noteq> ''$loki'' \<and> k \<noteq> ''meta''"
  with r show "map_of r k = map_of doc k"
    by (simp add: map_of_stamp map_of_strip)
next
  fix m p
  show "upsert c doc \<noteq> Inl (ValidationError m p)"
    by (simp add: upsert_def Let_def coll_update_engine_error coll_insert_engine_error)
qed

theorem upsert_dichotomy_witness:
  "engine_ids tests_collection
   \<and> map_of upsert_a ''$loki'' = Some (JNum 1)
   \<and> coll_get tests_collection (JNum 1) = Some rec_a
   \<and> upsert tests_collection upsert_a = coll_update tests_collection upsert_a
   \<and> upsert tests_collection upsert_a
       = Inr (upsert_a, tests_collection\<lparr>data := [upsert_a, rec_b]\<rparr>)
   \<and> test_objectSchema upsert_a = Inl ''slug''
   \<and> map_of upsert_new ''$loki'' = Some (JNum 42)
   \<and> coll_get tests_collection (JNum 42) = None
   \<and> upsert tests_collection upsert_new
       = Inr (upserted_c, tests_collection\<lparr>data := [rec_a, rec_b, upserted_c], maxId := 3\<rparr>)
   \<and> map_of upserted_c ''$loki'' = Some (JNum (maxId tests_collection + 1))
   \<and> coll_get tests_collection (JNum (maxId tests_collection + 1)) = None
   \<and> map_of upserted_c ''meta'' = Some fresh_meta
   \<and> map_of upserted_c ''slug'' = map_of upsert_new ''slug''"
proof -
  have e: "engine_ids tests_collection"
    by (simp add: test_defs engine_ids_def valid_id_def)
  have a: "map_of upsert_a ''$loki'' = Some (JNum 1)"
    "coll_get tests_collection (JNum 1) = Some rec_a"
    by (simp_all add: test_defs upsert_a_def coll_get_def)
  have n: "map_of upsert_new ''$loki'' = Some (JNum 42)"
    "coll_get tests_collection (JNum 42) = None"
    by (simp_all add: test_defs upsert_new_def coll_get_def)
  have u: "coll_update tests_collection upsert_a
             = Inr (upsert_a, tests_collection\<lparr>data := [upsert_a, rec_b]\<rparr>)"
    by (simp add: test_defs upsert_a_def op_defs)
  have s: "test_objectSchema upsert_a = Inl ''slug''"
    by (simp add: test_defs upsert_a_def)
  have i: "coll_insert tests_collection (stripLokiProperties upsert_new)
             = Inr (upserted_c,
                    tests_collection\<lparr>data := [rec_a, rec_b, upserted_c], maxId := 3\<rparr>)"
    by (simp add: test_defs upsert_new_def upserted_c_def op_defs stripLokiProperties_def)
  have ante1: "engine_ids tests_collection \<and> map_of upsert_a ''$loki'' = Some (JNum 1)
      \<and> coll_get tests_collection (JNum 1) = Some rec_a"
    using e a by simp
  have ante2: "map_of upsert_new ''$loki'' = None
      \<or> (\<exists>ident. map_of upsert_new ''$loki'' = Some ident
            \<and> coll_get tests_collection ident = None)"
    using n by blast
  note t1 = upsert_dichotomy [of tests_collection upsert_a, THEN conjunct1, THEN spec,
      THEN spec, THEN mp, OF ante1]
  note t2 = upsert_dichotomy [of tests_collection upsert_new, THEN conjunct2,
      THEN conjunct1, THEN mp, OF ante2]
  from t2 i have 3: "upsert tests_collection upsert_new
       = Inr (upserted_c, tests_collection\<lparr>data := [rec_a, rec_b, upserted_c], maxId := 3\<rparr>)"
    by simp
  note t3 = t2 [THEN conjunct2, THEN spec, THEN spec, THEN mp, OF 3]
  have 4: "map_of upserted_c ''$loki'' = Some (JNum (maxId tests_collection + 1))"
    "map_of upserted_c ''meta'' = Some fresh_meta"
    using t3 by simp_all
  note 6 = t3 [THEN conjunct2, THEN conjunct1, THEN mp, OF e]
  have 5: "map_of upserted_c ''slug'' = map_of upsert_new ''slug''"
    using t3 [THEN conjunct2, THEN conjunct2, THEN conjunct2, THEN conjunct1, THEN spec,
        of "''slug''"]
    by simp
  from e a n u s t1 3 4 5 6 show ?thesis by simp
qed

section \<open>Construction of the initializer\<close>

lemma uniqueKey_JStr: "uniqueKey (JStr s) = (if s = [] then None else Some s)"
  by (cases s) simp_all

lemma those_uniqueKey:
  "those (map uniqueKey vs) = Some ks \<longleftrightarrow> vs = map JStr ks \<and> [] \<notin> set ks"
proof (induction vs arbitrary: ks)
  case Nil
  then show ?case by auto
next
  case (Cons v vs)
  show ?case
  proof (cases v)
    case (JStr s)
    then show ?thesis
      using Cons.IH by (cases ks) (auto simp: uniqueKey_JStr simp del: uniqueKey.simps
          split: option.splits)
  qed (auto split: option.splits)
qed

lemma Schema_uniqueKeys_Inr:
  "Schema_uniqueKeys vs = Inr ks \<longleftrightarrow> vs = map JStr ks \<and> [] \<notin> set ks \<and> distinct ks"
proof (cases "those (map uniqueKey vs)")
  case None
  then have "\<not> (vs = map JStr ks \<and> [] \<notin> set ks)"
    using those_uniqueKey [of vs ks] by simp
  with None show ?thesis by (auto simp: Schema_uniqueKeys_def)
next
  case (Some ks')
  then have vs: "vs = map JStr ks'" "[] \<notin> set ks'"
    using those_uniqueKey [of vs ks'] by simp_all
  have "map JStr ks' = map JStr ks \<longleftrightarrow> ks' = ks"
    by (simp add: inj_map_eq_map inj_on_def)
  with Some vs show ?thesis
    by (auto simp: Schema_uniqueKeys_def)
qed

text \<open>
  C9 (construction-time validation), as amended. Take the unique-keys argument wrapped
  into an array when it is no array (\<open>[]\<close> when it is left out). When its items are
  non-empty strings without duplicates, the factory returns an initializer that holds
  these strings, the given name and the database handle exactly as passed. In every other
  case it fails with a \<open>ValidationError\<close> with the message \<open>invalid uniqueKeys\<close>.
  The factory reads nothing from the database in either case.
\<close>

theorem Initializer_validation:
  "(\<forall>ks. valueToArray (case keys of None \<Rightarrow> Several [] | Some k \<Rightarrow> k) = map JStr ks
         \<and> [] \<notin> set ks \<and> distinct ks \<longrightarrow>
      (\<exists>i. Initializer d n keys cs os = Inr i \<and> db i = d \<and> collectionName i = n
           \<and> uniqueKeys i = ks))
   \<and> (\<not> (\<exists>ks. valueToArray (case keys of None \<Rightarrow> Several [] | Some k \<Rightarrow> k) = map JStr ks
              \<and> [] \<notin> set ks \<and> distinct ks) \<longrightarrow>
        Initializer d n keys cs os =
           Inl (ValidationError (Literal ''invalid uniqueKeys'') NoProps)
        \<and> Initializer d' n keys cs os = Initializer d n keys cs os)"
proof (intro conjI allI impI)
  fix ks
  assume "valueToArray (case keys of None \<Rightarrow> Several [] | Some k \<Rightarrow> k) = map JStr ks
         \<and> [] \<notin> set ks \<and> distinct ks"
  then have "Schema_uniqueKeys (valueToArray (case keys of None \<Rightarrow> Several [] | Some k \<Rightarrow> k))
               = Inr ks"
    by (simp add: Schema_uniqueKeys_Inr)
  then show "\<exists>i. Initializer d n keys cs os = Inr i \<and> db i = d \<and> collectionName i = n
           \<and> uniqueKeys i = ks"
    by (simp add: Initializer_def)
next
  assume a: "\<not> (\<exists>ks. valueToArray (case keys of None \<Rightarrow> Several [] | Some k \<Rightarrow> k) = map JStr ks
              \<and> [] \<notin> set ks \<and> distinct ks)"
  let ?vs = "valueToArray (case keys of None \<Rightarrow> Several [] | Some k \<Rightarrow> k)"
  have "\<exists>details. Schema_uniqueKeys ?vs = Inl details"
  proof (cases "Schema_uniqueKeys ?vs")
    case (Inl details)
    then show ?thesis by blast
  next
    case (Inr ks)
    with a show ?thesis by (simp only: Schema_uniqueKeys_Inr) blast
  qed
  then obtain details where e: "Schema_uniqueKeys ?vs = Inl details" by blast
  then show "Initializer d n keys cs os =
           Inl (ValidationError (Literal ''invalid uniqueKeys'') NoProps)"
    by (simp add: Initializer_def)
  from e show "Initializer d' n keys cs os = Initializer d n keys cs os"
    by (simp add: Initializer_def)
qed

theorem Initializer_validation_witness:
  "valueToArray (case Some (Several [JStr ''name'', JStr ''content'']) of
                   None \<Rightarrow> Several [] | Some k \<Rightarrow> k) = map JStr [''name'', ''content'']
   \<and> [] \<notin> set [''name'', ''content''] \<and> distinct [''name'', ''content'']
   \<and> (\<exists>i. Initializer [''TESTS'' \<mapsto> tests_collection] ''TESTS''
             (Some (Several [JStr ''name'', JStr ''content''])) None None = Inr i
          \<and> db i = [''TESTS'' \<mapsto> tests_collection] \<and> collectionName i = ''TESTS''
          \<and> uniqueKeys i = [''name'', ''content''])
   \<and> \<not> (\<exists>ks. valueToArray (case Some (Several [JBool True, JBool False, JBool True]) of
                              None \<Rightarrow> Several [] | Some k \<Rightarrow> k) = map JStr ks
             \<and> [] \<notin> set ks \<and> distinct ks)
   \<and> Initializer [''TESTS'' \<mapsto> tests_collection] ''TESTS''
        (Some (Several [JBool True, JBool False, JBool True])) None None
       = Inl (ValidationError (Literal ''invalid uniqueKeys'') NoProps)
   \<and> Initializer Map.empty ''TESTS''
        (Some (Several [JBool True, JBool False, JBool True])) None None
       = Initializer [''TESTS'' \<mapsto> tests_collection] ''TESTS''
           (Some (Several [JBool True, JBool False, JBool True])) None None"
proof -
  have good: "valueToArray (case Some (Several [JStr ''name'', JStr ''content'']) of
                   None \<Rightarrow> Several [] | Some k \<Rightarrow> k) = map JStr [''name'', ''content'']
      \<and> [] \<notin> set [''name'', ''content''] \<and> distinct [''name'', ''content'']"
    by simp
  have bad: "\<not> (\<exists>ks. valueToArray (case Some (Several [JBool True, JBool False, JBool True]) of
                              None \<Rightarrow> Several [] | Some k \<Rightarrow> k) = map JStr ks
             \<and> [] \<notin> set ks \<and> distinct ks)"
    by auto
  note t1 = Initializer_validation
      [of "Some (Several [JStr ''name'', JStr ''content''])"
          "[''TESTS'' \<mapsto> tests_collection]" "''TESTS''" None None,
       THEN conjunct1, THEN spec, THEN mp, OF good]
  note t2 = Initializer_validation
      [of "Some (Several [JBool True, JBool False, JBool True])"
          "[''TESTS'' \<mapsto> tests_collection]" "''TESTS''" None None Map.empty,
       THEN conjunct2, THEN mp, OF bad]
  from good bad t1 t2 show ?thesis by simp
qed

text \<open>
  C9 as stated fails twice. The number \<open>7\<close> is refused with a \<open>ValidationError\<close>,
  the class that schema failures of records use as well; the sources have no
  \<open>ConfigurationError\<close>. And the empty string, a single string, is refused.
\<close>

theorem Initializer_validation_counterexample:
  "Initializer Map.empty ''TESTS'' (Some (Single (JNum 7))) None None
     = Inl (ValidationError (Literal ''invalid uniqueKeys'') NoProps)
   \<and> error_name (ValidationError (Literal ''invalid uniqueKeys'') NoProps)
       \<noteq> ''ConfigurationError''
   \<and> validateObjectSchema test_objectSchema []
       = Inl (ValidationError NoMessage (SchemaDetails ''slug''))
   \<and> error_name (ValidationError NoMessage (SchemaDetails ''slug''))
       = error_name (ValidationError (Literal ''invalid uniqueKeys'') NoProps)
   \<and> Initializer Map.empty ''TESTS'' (Some (Single (JStr []))) None None
       = Inl (ValidationError (Literal ''invalid uniqueKeys'') NoProps)"
  by (simp add: Initializer_def Schema_uniqueKeys_def validateObjectSchema_def
      test_objectSchema_def)

section \<open>Patch and the schema's value\<close>

text \<open>
  C10 (patch skips the schema's output). A successful \<open>validateAndPatch\<close> has had the
  merged record accepted by the schema, and what it hands to the engine's \<open>update\<close>,
  stores and returns is the merged record itself, not the value the schema returned.
  \<open>validateAndReplace\<close> and \<open>validateAndInsert\<close> store the schema's value (with
  the storage fields of the existing record, or freshly stamped).
\<close>

theorem patch_discards_schema_value:
  "(\<forall>r c'. validateAndPatch sch c doc = Inr (r, c') \<longrightarrow>
      (\<exists>existing validated p.
          getByID c (map_of doc ''$loki'') = Inr existing
        \<and> sch (patched existing doc) = Inr validated
        \<and> r = patched existing doc
        \<and> p < length (data c) \<and> data c' = (data c)[p := patched existing doc]))
   \<and> (\<forall>r c'. validateAndReplace sch c doc = Inr (r, c') \<longrightarrow>
      (\<exists>existing validated p.
          getByID c (map_of doc ''$loki'') = Inr existing
        \<and> sch doc = Inr validated
        \<and> r = Object_assign validated (pick existing [''$loki'', ''meta''])
        \<and> p < length (data c) \<and> data c' = (data c)[p := r]))
   \<and> (\<forall>r c'. validateAndInsert sch c doc = Inr (r, c') \<longrightarrow>
      (\<exists>validated. sch doc = Inr validated
        \<and> r = stamp (maxId c + 1) validated \<and> data c' = data c @ [r]))"
proof (intro conjI allI impI)
  fix r c'
  assume "validateAndPatch sch c doc = Inr (r, c')"
  from validateAndPatch_Inr [OF this] obtain existing validated
    where e: "getByID c (map_of doc ''$loki'') = Inr existing"
      and v: "sch (patched existing doc) = Inr validated"
      and u: "coll_update c (patched existing doc) = Inr (r, c')"
    by blast
  from coll_update_result [OF u] e v
  show "\<exists>existing validated p.
          getByID c (map_of doc ''$loki'') = Inr existing
        \<and> sch (patched existing doc) = Inr validated
        \<and> r = patched existing doc
        \<and> p < length (data c) \<and> data c' = (data c)[p := patched existing doc]"
    by auto
next
  fix r c'
  assume "validateAndReplace sch c doc = Inr (r, c')"
  from validateAndReplace_Inr [OF this] obtain existing validated
    where e: "getByID c (map_of doc ''$loki'') = Inr existing"
      and v: "sch doc = Inr validated"
      and u: "coll_update c (Object_assign validated (pick existing [''$loki'', ''meta'']))
                = Inr (r, c')"
    by blast
  from coll_update_result [OF u] e v
  show "\<exists>existing validated p.
          getByID c (map_of doc ''$loki'') = Inr existing
        \<and> sch doc = Inr validated
        \<and> r = Object_assign validated (pick existing [''$loki'', ''meta''])
        \<and> p < length (data c) \<and> data c' = (data c)[p := r]"
    by auto
next
  fix r c'
  assume "validateAndInsert sch c doc = Inr (r, c')"
  from validateAndInsert_Inr [OF this] obtain validated
    where v: "sch doc = Inr validated" and i: "coll_insert c validated = Inr (r, c')"
    by blast
  from coll_insert_result [OF i] v
  show "\<exists>validated. sch doc = Inr validated
        \<and> r = stamp (maxId c + 1) validated \<and> data c' = data c @ [r]"
    by auto
qed

theorem patch_discards_schema_value_witness:
  "validateAndPatch test_objectSchema tests_collection patch_c
     = Inr (patched_a, tests_collection\<lparr>data := [patched_a, rec_b]\<rparr>)
   \<and> test_objectSchema patched_a = Inr (patched_a @ [(''isDisabled'', JBool False)])
   \<and> map_of patched_a ''isDisabled'' = None
   \<and> (\<exists>existing validated.
         getByID tests_collection (map_of patch_c ''$loki'') = Inr existing
       \<and> test_objectSchema (patched existing patch_c) = Inr validated
       \<and> patched_a = patched existing patch_c)
   \<and> validateAndReplace test_objectSchema tests_collection replace_c
       = Inr (replaced_a, tests_collection\<lparr>data := [replaced_a, rec_b]\<rparr>)
   \<and> (\<exists>existing validated.
         test_objectSchema replace_c = Inr validated
       \<and> replaced_a = Object_assign validated (pick existing [''$loki'', ''meta'']))
   \<and> map_of replaced_a ''isDisabled'' = Some (JBool False)
   \<and> validateAndInsert test_objectSchema tests_collection doc_c
       = Inr (inserted_c, tests_collection\<lparr>data := [rec_a, rec_b, inserted_c], maxId := 3\<rparr>)
   \<and> (\<exists>validated. test_objectSchema doc_c = Inr validated
        \<and> inserted_c = stamp (maxId tests_collection + 1) validated)
   \<and> map_of inserted_c ''isDisabled'' = Some (JBool False)"
proof -
  have p: "validateAndPatch test_objectSchema tests_collection patch_c
             = Inr (patched_a, tests_collection\<lparr>data := [patched_a, rec_b]\<rparr>)"
    by (simp add: test_defs patch_c_def replace_c_def patched_a_def replaced_a_def
        inserted_c_def doc_c_def op_defs fresh_meta_def)
  have r: "validateAndReplace test_objectSchema tests_collection replace_c
             = Inr (replaced_a, tests_collection\<lparr>data := [replaced_a, rec_b]\<rparr>)"
    by (simp add: test_defs patch_c_def replace_c_def patched_a_def replaced_a_def
        inserted_c_def doc_c_def op_defs)
  have i: "validateAndInsert test_objectSchema tests_collection doc_c
             = Inr (inserted_c,
                    tests_collection\<lparr>data := [rec_a, rec_b, inserted_c], maxId := 3\<rparr>)"
    by (simp add: test_defs patch_c_def replace_c_def patched_a_def replaced_a_def
        inserted_c_def doc_c_def op_defs)
  have s: "test_objectSchema patched_a = Inr (patched_a @ [(''isDisabled'', JBool False)])"
    by (simp add: test_defs patch_c_def replace_c_def patched_a_def replaced_a_def
        inserted_c_def doc_c_def)
  have l: "map_of patched_a ''isDisabled'' = None"
    "map_of replaced_a ''isDisabled'' = Some (JBool False)"
    "map_of inserted_c ''isDisabled'' = Some (JBool False)"
    by (simp_all add: test_defs patch_c_def replace_c_def patched_a_def replaced_a_def
        inserted_c_def doc_c_def)
  note t = patch_discards_schema_value [of test_objectSchema tests_collection]
  from t [of patch_c] p
  have 1: "\<exists>existing validated.
         getByID tests_collection (map_of patch_c ''$loki'') = Inr existing
       \<and> test_objectSchema (patched existing patch_c) = Inr validated
       \<and> patched_a = patched existing patch_c"
    by blast
  from t [of replace_c] r
  have 2: "\<exists>existing validated.
         test_objectSchema replace_c = Inr validated
       \<and> replaced_a = Object_assign validated (pick existing [''$loki'', ''meta''])"
    by blast
  from t [of doc_c] i
  have 3: "\<exists>validated. test_objectSchema doc_c = Inr validated
        \<and> inserted_c = stamp (maxId tests_collection + 1) validated"
    by blast
  from p r i s l 1 2 3 show ?thesis by blast
qed

end
